theory Spec2Isabelle
  imports Complex_Main "HOL-Library.Signed_Division"
begin

section \<open>Data model\<close>

text \<open>
  The class \<^verbatim>\<open>BigDecimal\<close> has two read-only fields: \<^verbatim>\<open>significant: bigint\<close>
  and \<^verbatim>\<open>exponent: number\<close>. A bigint is an unbounded integer. The exponent is a
  JavaScript number that the code only ever adds, subtracts, negates, compares and
  multiplies by integers; it is modelled as an unbounded integer too (the loss of
  exactness of a double beyond \<open>2^53\<close> is not modelled).

  BigInt division \<^verbatim>\<open>/\<close> truncates toward zero and \<^verbatim>\<open>%\<close> takes the sign of the dividend:
  these are \<open>sdiv\<close> and \<open>smod\<close> on \<^typ>\<open>int\<close>.

  The embedding follows the documented version of the class (fields \<^verbatim>\<open>significant\<close> and
  \<^verbatim>\<open>exponent\<close>, with \<^verbatim>\<open>integralPart\<close>, \<^verbatim>\<open>decimalPart\<close>, \<^verbatim>\<open>divideToIntegralValue\<close> and
  \<^verbatim>\<open>remainder\<close>); \<^verbatim>\<open>src/decimal.ts\<close> has the same methods with the field named
  \<^verbatim>\<open>mantissa\<close>, and \<^verbatim>\<open>equalValue\<close> is taken from there. Functions whose name is taken in
  HOL carry the suffix \<open>_bd\<close>: \<open>divide_bd\<close>, \<open>round_bd\<close>, \<open>sqrt_bd\<close>.
\<close>

record BigDecimal =
  significant :: int
  exponent :: int

text \<open>
  Every failure of the code is a thrown \<^verbatim>\<open>Error\<close> with a message:
  \<^item> \<^verbatim>\<open>"0/0 is undefined"\<close>: \<open>DivisionUndefined\<close>
  \<^item> \<^verbatim>\<open>"Division by zero"\<close>: \<open>DivisionByZero\<close>
  \<^item> \<^verbatim>\<open>"Negative numbers are not supported"\<close>: \<open>NegativeNotSupported\<close>
  \<^item> \<^verbatim>\<open>"NaN and Infinite are not supported"\<close>: \<open>NotFinite\<close>
  \<^item> \<^verbatim>\<open>"Invalid string"\<close>: \<open>InvalidString\<close>
\<close>

datatype error =
  DivisionUndefined | DivisionByZero | NegativeNotSupported | NotFinite | InvalidString

datatype RoundingMode = Ceiling | Floor | Up | Down | HalfUp | HalfDown | HalfEven

definition ZERO :: BigDecimal where
  "ZERO = \<lparr>significant = 0, exponent = 0\<rparr>"

definition ONE :: BigDecimal where
  "ONE = \<lparr>significant = 1, exponent = 0\<rparr>"

text \<open>The documented value of a number: \<^verbatim>\<open>significant * 10 ^ exponent\<close>.\<close>

definition val :: "BigDecimal \<Rightarrow> real" where
  "val x = of_int (significant x) * 10 powi (exponent x)"

section \<open>Normalization\<close>

text \<open>
  \<^verbatim>\<open>
  normalized(): BigDecimal {
    let significant = this.significant;
    let exponent = this.exponent;
    if (significant === 0n) { return new BigDecimal(0n, 0); }
    while (significant % 10n === 0n) { significant /= 10n; exponent++; }
    return new BigDecimal(significant, exponent);
  }\<close>
  The loop is entered only with a nonzero significant. \<open>normalized_while\<close> is the loop
  exactly as written (not returning is \<open>None\<close>); \<open>normalized_loop\<close> carries the
  entry condition in its test, which makes it total, and the two agree on every
  nonzero significant (lemma \<open>normalized_while_loop\<close>).
\<close>

partial_function (option) normalized_while :: "int \<Rightarrow> int \<Rightarrow> BigDecimal option" where
  "normalized_while m e =
     (if m smod 10 = 0 then normalized_while (m sdiv 10) (e + 1)
      else Some \<lparr>significant = m, exponent = e\<rparr>)"

function normalized_loop :: "int \<Rightarrow> int \<Rightarrow> BigDecimal" where
  "normalized_loop m e =
     (if m \<noteq> 0 \<and> m smod 10 = 0 then normalized_loop (m sdiv 10) (e + 1)
      else \<lparr>significant = m, exponent = e\<rparr>)"
  by pat_completeness auto
termination
proof (relation "measure (\<lambda>(m, e). nat \<bar>m\<bar>)")
  show "wf (measure (\<lambda>(m, e). nat \<bar>m\<bar>))" by simp
next
  fix m e :: int
  assume "m \<noteq> 0 \<and> m smod 10 = 0"
  then have "m \<noteq> 0" by simp
  then have "\<bar>m\<bar> div 10 < \<bar>m\<bar>" by (intro int_div_less_self) auto
  moreover have "\<bar>m sdiv 10\<bar> = \<bar>m\<bar> div 10"
    by (cases "m = 0") (simp_all add: signed_divide_int_def abs_mult)
  ultimately show "((m sdiv 10, e + 1), (m, e)) \<in> measure (\<lambda>(m, e). nat \<bar>m\<bar>)"
    by simp
qed

declare normalized_loop.simps [simp del]

definition normalized :: "BigDecimal \<Rightarrow> BigDecimal" where
  "normalized this =
     (if significant this = 0 then \<lparr>significant = 0, exponent = 0\<rparr>
      else normalized_loop (significant this) (exponent this))"

section \<open>Arithmetic\<close>

definition negate :: "BigDecimal \<Rightarrow> BigDecimal" where
  "negate this = \<lparr>significant = - significant this, exponent = exponent this\<rparr>"

text \<open>
  \<^verbatim>\<open>
  add(other) {
    const diff = this.exponent - other.exponent;
    if (diff < 0) { return other.add(this); }
    const significant = other.significant + this.significant * 10n ** BigInt(diff);
    const exponent = Math.min(this.exponent, other.exponent);
    return new BigDecimal(significant, exponent).normalized();
  }\<close>
\<close>

function add :: "BigDecimal \<Rightarrow> BigDecimal \<Rightarrow> BigDecimal" where
  "add this other =
     (let diff = exponent this - exponent other in
      if diff < 0 then add other this
      else normalized
             \<lparr>significant = significant other + significant this * 10 ^ nat diff,
              exponent = min (exponent this) (exponent other)\<rparr>)"
  by pat_completeness auto
termination
  by (relation "measure (\<lambda>(this, other). if exponent this < exponent other then 1 else 0)")
     auto

declare add.simps [simp del]

definition subtract :: "BigDecimal \<Rightarrow> BigDecimal \<Rightarrow> BigDecimal" where
  "subtract this other = add this (negate other)"

definition multiply :: "BigDecimal \<Rightarrow> BigDecimal \<Rightarrow> BigDecimal" where
  "multiply this other =
     normalized \<lparr>significant = significant this * significant other,
                 exponent = exponent this + exponent other\<rparr>"

text \<open>
  \<^verbatim>\<open>
  divide(other) {
    if (other.significant === 0n) {
      if (this.significant === 0n) { throw new Error("0/0 is undefined"); }
      throw new Error("Division by zero");
    }
    if (this.significant === 0n) { return new BigDecimal(0n, 0); }
    let thissignificant = this.significant;
    let thisExponent = this.exponent;
    for (let i = 0; i < 10 && thissignificant % other.significant !== 0n; i++) {
      thissignificant *= 10n;
      thisExponent--;
    }
    const significant = thissignificant / other.significant;
    const exponent = thisExponent - other.exponent;
    return new BigDecimal(significant, exponent).normalized();
  }\<close>
  \<open>divide_loop\<close> is the \<^verbatim>\<open>for\<close> loop: its state is the counter \<open>i\<close>, the scaled
  significant and the working exponent.
\<close>

function divide_loop :: "nat \<Rightarrow> int \<Rightarrow> int \<Rightarrow> int \<Rightarrow> int \<times> int" where
  "divide_loop i thisSignificant thisExponent otherSignificant =
     (if i < 10 \<and> thisSignificant smod otherSignificant \<noteq> 0
      then divide_loop (i + 1) (thisSignificant * 10) (thisExponent - 1) otherSignificant
      else (thisSignificant, thisExponent))"
  by pat_completeness auto
termination
  by (relation "measure (\<lambda>(i, m, e, d). 10 - i)") auto

declare divide_loop.simps [simp del]

definition divide_bd :: "BigDecimal \<Rightarrow> BigDecimal \<Rightarrow> error + BigDecimal" where
  "divide_bd this other =
     (if significant other = 0 then
        (if significant this = 0 then Inl DivisionUndefined else Inl DivisionByZero)
      else if significant this = 0 then Inr \<lparr>significant = 0, exponent = 0\<rparr>
      else
        (case divide_loop 0 (significant this) (exponent this) (significant other) of
           (thisSignificant, thisExponent) \<Rightarrow>
             Inr (normalized
                    \<lparr>significant = thisSignificant sdiv significant other,
                     exponent = thisExponent - exponent other\<rparr>)))"

section \<open>Rounding\<close>

definition signum :: "BigDecimal \<Rightarrow> int" where
  "signum this =
     (if significant this < 0 then - 1 else if significant this = 0 then 0 else 1)"

text \<open>
  The seven private per-mode routines. Each one starts with
  \<^verbatim>\<open>if (this.signum() === -1) { return this.negate().#roundM'(precision).negate(); }\<close>
  where \<open>M'\<close> is \<open>Floor\<close> for \<open>Ceiling\<close>, \<open>Ceiling\<close> for \<open>Floor\<close>, and the mode itself
  otherwise; then
  \<^verbatim>\<open>
    const excessExponent = -this.exponent - precision;
    const modulo = 10n ** BigInt(excessExponent);
    const base = this.significant / modulo;
    const remainder = (this.significant % modulo) / (modulo / 10n);  // half modes only
  \<close>
  They are called by \<^verbatim>\<open>round\<close> only, with \<open>excessExponent > 0\<close>; \<open>10n ** BigInt(k)\<close> is
  \<open>10 ^ nat k\<close> there.
\<close>

function roundCeiling :: "BigDecimal \<Rightarrow> int \<Rightarrow> BigDecimal"
  and roundFloor :: "BigDecimal \<Rightarrow> int \<Rightarrow> BigDecimal" where
  "roundCeiling this precision =
     (if signum this = - 1 then negate (roundFloor (negate this) precision)
      else
        let excessExponent = - exponent this - precision;
            modulo = 10 ^ nat excessExponent;
            base = significant this sdiv modulo
        in \<lparr>significant = base + 1, exponent = - precision\<rparr>)"
| "roundFloor this precision =
     (if signum this = - 1 then negate (roundCeiling (negate this) precision)
      else
        let excessExponent = - exponent this - precision;
            modulo = 10 ^ nat excessExponent;
            base = significant this sdiv modulo
        in \<lparr>significant = base, exponent = - precision\<rparr>)"
  by pat_completeness auto
termination
  by (relation "measure (\<lambda>s. case s of
                   Inl (this, p) \<Rightarrow> if significant this < 0 then 1 else 0
                 | Inr (this, p) \<Rightarrow> if significant this < 0 then 1 else 0)")
     (auto simp add: signum_def negate_def split: if_splits)

function roundUp :: "BigDecimal \<Rightarrow> int \<Rightarrow> BigDecimal" where
  "roundUp this precision =
     (if signum this = - 1 then negate (roundUp (negate this) precision)
      else
        let excessExponent = - exponent this - precision;
            modulo = 10 ^ nat excessExponent;
            base = significant this sdiv modulo
        in \<lparr>significant = base + 1, exponent = - precision\<rparr>)"
  by pat_completeness auto
termination
  by (relation "measure (\<lambda>(this, p). if significant this < 0 then 1 else 0)")
     (auto simp add: signum_def negate_def split: if_splits)

function roundDown :: "BigDecimal \<Rightarrow> int \<Rightarrow> BigDecimal" where
  "roundDown this precision =
     (if signum this = - 1 then negate (roundDown (negate this) precision)
      else
        let excessExponent = - exponent this - precision;
            modulo = 10 ^ nat excessExponent;
            base = significant this sdiv modulo
        in \<lparr>significant = base, exponent = - precision\<rparr>)"
  by pat_completeness auto
termination
  by (relation "measure (\<lambda>(this, p). if significant this < 0 then 1 else 0)")
     (auto simp add: signum_def negate_def split: if_splits)

function roundHalfUp :: "BigDecimal \<Rightarrow> int \<Rightarrow> BigDecimal" where
  "roundHalfUp this precision =
     (if signum this = - 1 then negate (roundHalfUp (negate this) precision)
      else
        let excessExponent = - exponent this - precision;
            modulo = 10 ^ nat excessExponent;
            base = significant this sdiv modulo;
            remainder = (significant this smod modulo) sdiv (modulo sdiv 10)
        in if remainder < 5 then \<lparr>significant = base, exponent = - precision\<rparr>
           else \<lparr>significant = base + 1, exponent = - precision\<rparr>)"
  by pat_completeness auto
termination
  by (relation "measure (\<lambda>(this, p). if significant this < 0 then 1 else 0)")
     (auto simp add: signum_def negate_def split: if_splits)

function roundHalfDown :: "BigDecimal \<Rightarrow> int \<Rightarrow> BigDecimal" where
  "roundHalfDown this precision =
     (if signum this = - 1 then negate (roundHalfDown (negate this) precision)
      else
        let excessExponent = - exponent this - precision;
            modulo = 10 ^ nat excessExponent;
            base = significant this sdiv modulo;
            remainder = (significant this smod modulo) sdiv (modulo sdiv 10)
        in if remainder \<le> 5 then \<lparr>significant = base, exponent = - precision\<rparr>
           else \<lparr>significant = base + 1, exponent = - precision\<rparr>)"
  by pat_completeness auto
termination
  by (relation "measure (\<lambda>(this, p). if significant this < 0 then 1 else 0)")
     (auto simp add: signum_def negate_def split: if_splits)

function roundHalfEven :: "BigDecimal \<Rightarrow> int \<Rightarrow> BigDecimal" where
  "roundHalfEven this precision =
     (if signum this = - 1 then negate (roundHalfEven (negate this) precision)
      else
        let excessExponent = - exponent this - precision;
            modulo = 10 ^ nat excessExponent;
            base = significant this sdiv modulo;
            remainder = (significant this smod modulo) sdiv (modulo sdiv 10)
        in if remainder < 5 then \<lparr>significant = base, exponent = - precision\<rparr>
           else if remainder = 5 then
             (if base smod 2 = 0 then \<lparr>significant = base, exponent = - precision\<rparr>
              else \<lparr>significant = base + 1, exponent = - precision\<rparr>)
           else \<lparr>significant = base + 1, exponent = - precision\<rparr>)"
  by pat_completeness auto
termination
  by (relation "measure (\<lambda>(this, p). if significant this < 0 then 1 else 0)")
     (auto simp add: signum_def negate_def split: if_splits)

declare roundCeiling.simps [simp del] roundFloor.simps [simp del] roundUp.simps [simp del]
  roundDown.simps [simp del] roundHalfUp.simps [simp del] roundHalfDown.simps [simp del]
  roundHalfEven.simps [simp del]

text \<open>
  \<^verbatim>\<open>
  round(props?: RoundingParams): BigDecimal {
    const { roundingMode = RoundingMode.HalfEven, precision = 10, normalized = false } = props ?? {};
    if (!normalized) {
      return this.normalized().round({ roundingMode, precision, normalized: true });
    }
    if (this.signum() === 0) { return BigDecimal.ZERO; }
    const excessExponent = -this.exponent - precision;
    if (excessExponent <= 0) { return this; }
    if (roundingMode === RoundingMode.Ceiling) { return this.#roundCeiling(precision).normalized(); }
    else if ... else { return this.#roundHalfEven(precision).normalized(); }
  }\<close>
  The three properties are the three arguments after \<open>this\<close>; a caller's
  \<^verbatim>\<open>x.round({roundingMode: m, precision: p})\<close> is \<open>round_bd x m p False\<close>. The precision
  is a count of digits, an integer (\<^verbatim>\<open>BigInt\<close> of a fractional number throws).
\<close>

function round_bd :: "BigDecimal \<Rightarrow> RoundingMode \<Rightarrow> int \<Rightarrow> bool \<Rightarrow> BigDecimal" where
  "round_bd this roundingMode precision is_normalized =
     (if \<not> is_normalized then round_bd (normalized this) roundingMode precision True
      else if signum this = 0 then ZERO
      else
        let excessExponent = - exponent this - precision in
        if excessExponent \<le> 0 then this
        else
          (case roundingMode of
             Ceiling \<Rightarrow> normalized (roundCeiling this precision)
           | Floor \<Rightarrow> normalized (roundFloor this precision)
           | Up \<Rightarrow> normalized (roundUp this precision)
           | Down \<Rightarrow> normalized (roundDown this precision)
           | HalfUp \<Rightarrow> normalized (roundHalfUp this precision)
           | HalfDown \<Rightarrow> normalized (roundHalfDown this precision)
           | HalfEven \<Rightarrow> normalized (roundHalfEven this precision)))"
  by pat_completeness auto
termination
  by (relation "measure (\<lambda>(this, m, p, n). if n then 0 else 1)") auto

declare round_bd.simps [simp del]

section \<open>Integral quotient, remainder, integral and decimal part\<close>

definition divideToIntegralValue :: "BigDecimal \<Rightarrow> BigDecimal \<Rightarrow> error + BigDecimal" where
  "divideToIntegralValue this other =
     (case divide_bd this other of
        Inl err \<Rightarrow> Inl err
      | Inr q \<Rightarrow> Inr (round_bd q Down 0 False))"

definition remainder :: "BigDecimal \<Rightarrow> BigDecimal \<Rightarrow> error + BigDecimal" where
  "remainder this other =
     (case divideToIntegralValue this other of
        Inl err \<Rightarrow> Inl err
      | Inr q \<Rightarrow> Inr (subtract this (multiply q other)))"

text \<open>
  \<^verbatim>\<open>
  integralPart(): BigDecimal {
    if (this.significant < 0n) { return this.negate().integralPart().negate(); }
    const normalized = this.normalized();
    if (normalized.exponent >= 0) { return normalized; }
    else { return new BigDecimal(normalized.significant / 10n ** BigInt(-normalized.exponent), 0); }
  }
  decimalPart(): BigDecimal {
    if (this.significant < 0n) { return this.negate().decimalPart().negate(); }
    const normalized = this.normalized();
    if (normalized.exponent >= 0) { return BigDecimal.ZERO; }
    else { return new BigDecimal(normalized.significant % 10n ** BigInt(-normalized.exponent),
                                 normalized.exponent); }
  }\<close>
\<close>

function integralPart :: "BigDecimal \<Rightarrow> BigDecimal" where
  "integralPart this =
     (if significant this < 0 then negate (integralPart (negate this))
      else
        let n = normalized this in
        if exponent n \<ge> 0 then n
        else \<lparr>significant = significant n sdiv 10 ^ nat (- exponent n), exponent = 0\<rparr>)"
  by pat_completeness auto
termination
  by (relation "measure (\<lambda>this. if significant this < 0 then 1 else 0)")
     (auto simp add: negate_def)

function decimalPart :: "BigDecimal \<Rightarrow> BigDecimal" where
  "decimalPart this =
     (if significant this < 0 then negate (decimalPart (negate this))
      else
        let n = normalized this in
        if exponent n \<ge> 0 then ZERO
        else \<lparr>significant = significant n smod 10 ^ nat (- exponent n),
              exponent = exponent n\<rparr>)"
  by pat_completeness auto
termination
  by (relation "measure (\<lambda>this. if significant this < 0 then 1 else 0)")
     (auto simp add: negate_def)

declare integralPart.simps [simp del] decimalPart.simps [simp del]

definition equals :: "BigDecimal \<Rightarrow> BigDecimal \<Rightarrow> bool" where
  "equals this other \<longleftrightarrow>
     significant this = significant other \<and> exponent this = exponent other"

definition equalValue :: "BigDecimal \<Rightarrow> BigDecimal \<Rightarrow> bool" where
  "equalValue this other \<longleftrightarrow> equals (normalized this) (normalized other)"

section \<open>Parsing and printing\<close>

definition scaleByPowerOfTen :: "BigDecimal \<Rightarrow> int \<Rightarrow> BigDecimal" where
  "scaleByPowerOfTen this e =
     normalized \<lparr>significant = significant this, exponent = exponent this + e\<rparr>"

definition is_digit :: "char \<Rightarrow> bool" where
  "is_digit c \<longleftrightarrow> c \<in> set ''0123456789''"

text \<open>
  The value of a decimal digit is its position in \<open>''0123456789''\<close>; \<open>digit_value\<close>
  is applied to characters of that string only.
\<close>

definition digit_value :: "char \<Rightarrow> int" where
  "digit_value c = int (length (takeWhile (\<lambda>d. d \<noteq> c) ''0123456789''))"

definition digit_char :: "nat \<Rightarrow> char" where
  "digit_char d = ''0123456789'' ! d"

text \<open>
  \<^verbatim>\<open>BigInt(s)\<close> and \<^verbatim>\<open>Number.parseInt(s)\<close> are applied to capture groups of the
  pattern only, that is to strings of the form \<^verbatim>\<open>-?[0-9]+\<close>: an optional minus sign
  and decimal digits, leading zeros allowed (\<^verbatim>\<open>BigInt("-0")\<close> is \<^verbatim>\<open>0n\<close>).
\<close>

definition parse_digits :: "string \<Rightarrow> int" where
  "parse_digits ds = foldl (\<lambda>n c. 10 * n + digit_value c) 0 ds"

definition BigInt :: "string \<Rightarrow> int" where
  "BigInt s =
     (if s \<noteq> [] \<and> hd s = CHR ''-'' then - parse_digits (tl s)
      else parse_digits s)"

definition parseInt :: "string \<Rightarrow> int" where
  "parseInt s = BigInt s"

text \<open>
  The pattern \<^verbatim>\<open>/^(-?[0-9]+)(?:\.([0-9]+)(?:[eE](-?[0-9]+))?)?$/\<close>. Every
  quantified part is followed by a character outside its class or by the end of the
  input, so the greedy match is the only one; \<open>pattern_exec\<close> returns the three
  capture groups, the second and third being \<^verbatim>\<open>undefined\<close> (\<open>None\<close>) when their
  optional part is absent.
\<close>

definition optional_minus :: "string \<Rightarrow> string \<times> string" where
  "optional_minus s =
     (if s \<noteq> [] \<and> hd s = CHR ''-'' then ([CHR ''-''], tl s) else ([], s))"

definition digits1 :: "string \<Rightarrow> (string \<times> string) option" where
  "digits1 s =
     (let ds = takeWhile is_digit s
      in if ds = [] then None else Some (ds, dropWhile is_digit s))"

definition signed_digits :: "string \<Rightarrow> (string \<times> string) option" where
  "signed_digits s =
     (case optional_minus s of
        (sg, r) \<Rightarrow>
          (case digits1 r of None \<Rightarrow> None | Some (ds, r') \<Rightarrow> Some (sg @ ds, r')))"

definition pattern_exec :: "string \<Rightarrow> (string \<times> string option \<times> string option) option" where
  "pattern_exec v =
     (case signed_digits v of
        None \<Rightarrow> None
      | Some (g1, r1) \<Rightarrow>
          if r1 = [] then Some (g1, None, None)
          else if hd r1 \<noteq> CHR ''.'' then None
          else
            (case digits1 (tl r1) of
               None \<Rightarrow> None
             | Some (g2, r2) \<Rightarrow>
                 if r2 = [] then Some (g1, Some g2, None)
                 else if hd r2 \<noteq> CHR ''e'' \<and> hd r2 \<noteq> CHR ''E'' then None
                 else
                   (case signed_digits (tl r2) of
                      None \<Rightarrow> None
                    | Some (g3, r3) \<Rightarrow>
                        if r3 = [] then Some (g1, Some g2, Some g3) else None)))"

text \<open>
  \<^verbatim>\<open>
  static #valueOfString(value: string) {
    const result = pattern.exec(value);
    if (result === null) { throw new Error("Invalid string"); }
    const units = new BigDecimal(BigInt(result[1]!), 0);
    let decimals = result[2]
      ? new BigDecimal(BigInt(result[2]), -result[2].length)
      : new BigDecimal(0n, 0);
    if (units.signum() === -1) { decimals = decimals.negate(); }
    const exponent = result[3] ? Number.parseInt(result[3]) : 0;
    return units.add(decimals).scaleByPowerOfTen(exponent).normalized();
  }\<close>
  A matched group is a nonempty string, which is truthy.
\<close>

definition valueOfString :: "string \<Rightarrow> error + BigDecimal" where
  "valueOfString v =
     (case pattern_exec v of
        None \<Rightarrow> Inl InvalidString
      | Some (r1, r2, r3) \<Rightarrow>
          let units = \<lparr>significant = BigInt r1, exponent = 0\<rparr>;
              decimals0 =
                (case r2 of
                   Some f \<Rightarrow> \<lparr>significant = BigInt f, exponent = - int (length f)\<rparr>
                 | None \<Rightarrow> \<lparr>significant = 0, exponent = 0\<rparr>);
              decimals = (if signum units = - 1 then negate decimals0 else decimals0);
              e = (case r3 of Some x \<Rightarrow> parseInt x | None \<Rightarrow> 0)
          in Inr (normalized (scaleByPowerOfTen (add units decimals) e)))"

text \<open>
  \<^verbatim>\<open>
  toString(): string {
    const sign = this.significant < 0n ? "-" : "";
    const numbers = this.significant.toString().replace("-", "");
    if (this.exponent > 0) {
      return sign + numbers.padEnd(this.exponent + numbers.length, "0");
    } else if (this.exponent === 0) {
      return sign + numbers;
    } else {
      const units = numbers.substring(0, numbers.length + this.exponent);
      const decimals = numbers.substring(numbers.length + this.exponent);
      return `${sign}${units}.${decimals}`;
    }
  }\<close>
  \<open>digits_of\<close> is the decimal rendering of a non-negative integer (a bigint's
  \<^verbatim>\<open>toString()\<close> with its minus sign removed is the rendering of its absolute value).
  \<^verbatim>\<open>substring\<close> clamps each index to \<open>[0, length]\<close> and swaps them when the first is
  the larger; \<^verbatim>\<open>padEnd\<close> appends the padding character up to the target length.
\<close>

function digits_of :: "int \<Rightarrow> string" where
  "digits_of n =
     (if n < 10 then [digit_char (nat n)]
      else digits_of (n div 10) @ [digit_char (nat (n mod 10))])"
  by pat_completeness auto
termination
  by (relation "measure nat") auto

declare digits_of.simps [simp del]

definition padEnd :: "string \<Rightarrow> int \<Rightarrow> char \<Rightarrow> string" where
  "padEnd s targetLength c = s @ replicate (nat (targetLength - int (length s))) c"

definition clamp_index :: "string \<Rightarrow> int \<Rightarrow> nat" where
  "clamp_index s i = min (nat i) (length s)"

definition substring :: "string \<Rightarrow> int \<Rightarrow> int \<Rightarrow> string" where
  "substring s start end =
     (let a = clamp_index s start; b = clamp_index s end
      in take (max a b - min a b) (drop (min a b) s))"

definition substring_from :: "string \<Rightarrow> int \<Rightarrow> string" where
  "substring_from s start = drop (clamp_index s start) s"

definition toString :: "BigDecimal \<Rightarrow> string" where
  "toString this =
     (let sign = (if significant this < 0 then [CHR ''-''] else []);
          numbers = digits_of \<bar>significant this\<bar>
      in if exponent this > 0 then
           sign @ padEnd numbers (exponent this + int (length numbers)) (CHR ''0'')
         else if exponent this = 0 then sign @ numbers
         else
           let units = substring numbers 0 (int (length numbers) + exponent this);
               decimals = substring_from numbers (int (length numbers) + exponent this)
           in sign @ units @ [CHR ''.''] @ decimals)"

text \<open>
  The helper of the rounding tests:
  \<^verbatim>\<open>const round = (n: string) => BigDecimal.valueOf(n).round(a).toString();\<close>
\<close>

definition round_string :: "string \<Rightarrow> RoundingMode \<Rightarrow> int \<Rightarrow> error + string" where
  "round_string n roundingMode precision =
     (case valueOfString n of
        Inl err \<Rightarrow> Inl err
      | Inr v \<Rightarrow> Inr (toString (round_bd v roundingMode precision False)))"

section \<open>The half-even rule as the specification words it\<close>

text \<open>
  The specification's wording of the half-even rule, on the magnitude of the normalized
  value \<open>n\<close>: \<open>kept_base\<close> is the digit string up to and including the first \<open>p\<close>
  fractional digits, \<open>next_digit\<close> the single digit immediately beyond them, and the
  base is incremented when that digit is greater than 5, or equal to 5 with an odd
  base. The sign is restored on the result.
\<close>

definition kept_base :: "BigDecimal \<Rightarrow> int \<Rightarrow> int" where
  "kept_base n p = \<bar>significant n\<bar> div 10 ^ nat (- exponent n - p)"

definition next_digit :: "BigDecimal \<Rightarrow> int \<Rightarrow> int" where
  "next_digit n p = (\<bar>significant n\<bar> div 10 ^ (nat (- exponent n - p) - 1)) mod 10"

definition halfEven_increment :: "int \<Rightarrow> int \<Rightarrow> int" where
  "halfEven_increment base digit = (if digit > 5 \<or> (digit = 5 \<and> odd base) then 1 else 0)"

definition round_halfEven_spec :: "BigDecimal \<Rightarrow> int \<Rightarrow> BigDecimal" where
  "round_halfEven_spec x p =
     (let n = normalized x in
      if significant n = 0 then ZERO
      else if - exponent n - p \<le> 0 then n
      else normalized
             \<lparr>significant = sgn (significant n) *
                 (kept_base n p + halfEven_increment (kept_base n p) (next_digit n p)),
              exponent = - p\<rparr>)"

section \<open>Truncation toward zero\<close>

text \<open>
  What "truncates toward zero" means for a real value: the integer nearest to it among
  those of no greater magnitude.
\<close>

definition truncate_toward_zero :: "real \<Rightarrow> int" where
  "truncate_toward_zero r = (if r < 0 then - \<lfloor>- r\<rfloor> else \<lfloor>r\<rfloor>)"

section \<open>Native numbers\<close>

text \<open>
  \<^verbatim>\<open>number()\<close>, \<^verbatim>\<open>#valueOfNumber\<close> and \<^verbatim>\<open>sqrt\<close> compute with JavaScript numbers (IEEE 754
  doubles). A double is a finite real, an infinity or \<^verbatim>\<open>NaN\<close>; the sign of a zero is
  not kept (no operation below tells \<^verbatim>\<open>-0\<close> from \<^verbatim>\<open>0\<close>). The host's primitives are
  modelled as far as the standard fixes them without naming the set of doubles:
  \<^item> a result that is exactly \<open>0\<close> is \<open>0\<close>;
  \<^item> a result of magnitude at least \<open>2^1024 - 2^970\<close> (half an ulp above the largest
    double) overflows to the infinity of its sign;
  \<^item> any other result \<open>r\<close> is rounded to a finite double \<open>rd r\<close>. The rounding \<open>rd\<close> is the
    host's and is a parameter of every function that computes with numbers.
  \<^verbatim>\<open>10 ** e\<close> is taken as the rounding of the exact power; \<^verbatim>\<open>0 * Infinity\<close> is \<^verbatim>\<open>NaN\<close>.
\<close>

datatype double = Finite real | PosInfinity | NegInfinity | NaN

definition overflow_bound :: real where
  "overflow_bound = 2 ^ 1024 - 2 ^ 970"

definition to_double :: "(real \<Rightarrow> real) \<Rightarrow> real \<Rightarrow> double" where
  "to_double rd r =
     (if r = 0 then Finite 0
      else if overflow_bound \<le> r then PosInfinity
      else if r \<le> - overflow_bound then NegInfinity
      else Finite (rd r))"

text \<open>\<^verbatim>\<open>Number(b)\<close> for a bigint \<open>b\<close>, and \<^verbatim>\<open>10 ** e\<close>.\<close>

definition Number_of_bigint :: "(real \<Rightarrow> real) \<Rightarrow> int \<Rightarrow> double" where
  "Number_of_bigint rd b = to_double rd (of_int b)"

definition ten_to_the :: "(real \<Rightarrow> real) \<Rightarrow> int \<Rightarrow> double" where
  "ten_to_the rd e = to_double rd (10 powi e)"

text \<open>The product \<^verbatim>\<open>x * y\<close> of two numbers.\<close>

definition signed_infinity :: "bool \<Rightarrow> double" where
  "signed_infinity positive = (if positive then PosInfinity else NegInfinity)"

fun times_double :: "(real \<Rightarrow> real) \<Rightarrow> double \<Rightarrow> double \<Rightarrow> double" where
  "times_double rd NaN y = NaN"
| "times_double rd x NaN = NaN"
| "times_double rd (Finite a) (Finite b) = to_double rd (a * b)"
| "times_double rd (Finite a) PosInfinity = (if a = 0 then NaN else signed_infinity (0 < a))"
| "times_double rd (Finite a) NegInfinity = (if a = 0 then NaN else signed_infinity (a < 0))"
| "times_double rd PosInfinity (Finite b) = (if b = 0 then NaN else signed_infinity (0 < b))"
| "times_double rd NegInfinity (Finite b) = (if b = 0 then NaN else signed_infinity (b < 0))"
| "times_double rd PosInfinity PosInfinity = PosInfinity"
| "times_double rd PosInfinity NegInfinity = NegInfinity"
| "times_double rd NegInfinity PosInfinity = NegInfinity"
| "times_double rd NegInfinity NegInfinity = PosInfinity"

text \<open>\<^verbatim>\<open>Math.sqrt\<close>, \<^verbatim>\<open>Number.isFinite\<close>, \<^verbatim>\<open>Number.isInteger\<close>.\<close>

fun Math_sqrt :: "(real \<Rightarrow> real) \<Rightarrow> double \<Rightarrow> double" where
  "Math_sqrt rd NaN = NaN"
| "Math_sqrt rd NegInfinity = NaN"
| "Math_sqrt rd PosInfinity = PosInfinity"
| "Math_sqrt rd (Finite a) = (if a < 0 then NaN else to_double rd (sqrt a))"

fun isFinite :: "double \<Rightarrow> bool" where
  "isFinite (Finite a) = True"
| "isFinite x = False"

fun isInteger :: "double \<Rightarrow> bool" where
  "isInteger (Finite a) = (of_int \<lfloor>a\<rfloor> = a)"
| "isInteger x = False"

text \<open>
  \<^verbatim>\<open>BigInt(v)\<close> for a number \<open>v\<close>; it is applied only where \<^verbatim>\<open>Number.isInteger(v)\<close> holds
  (it throws a \<^verbatim>\<open>RangeError\<close> otherwise), and the floor is then the value itself.
\<close>

fun BigInt_of_number :: "double \<Rightarrow> int" where
  "BigInt_of_number (Finite a) = \<lfloor>a\<rfloor>"
| "BigInt_of_number x = 0"

text \<open>
  \<^verbatim>\<open>
  number(): number {
    const significant = Number(this.significant);
    return significant * 10 ** this.exponent;
  }\<close>
\<close>

definition number :: "(real \<Rightarrow> real) \<Rightarrow> BigDecimal \<Rightarrow> double" where
  "number rd this =
     times_double rd (Number_of_bigint rd (significant this)) (ten_to_the rd (exponent this))"

text \<open>
  \<^verbatim>\<open>
  static #valueOfNumber(value: number): BigDecimal {
    if (!Number.isFinite(value)) { throw new Error("NaN and Infinite are not supported"); }
    let significant = value;
    let exponent = 0;
    while (!Number.isInteger(significant)) { significant *= 10; exponent--; }
    return new BigDecimal(BigInt(significant), exponent).normalized();
  }\<close>
  Whether the loop ends depends on the rounding: not returning is \<open>None\<close>.
\<close>

partial_function (option) valueOfNumber_loop ::
  "(real \<Rightarrow> real) \<Rightarrow> double \<Rightarrow> int \<Rightarrow> (double \<times> int) option" where
  "valueOfNumber_loop rd m e =
     (if \<not> isInteger m then valueOfNumber_loop rd (times_double rd m (Finite 10)) (e - 1)
      else Some (m, e))"

definition valueOfNumber :: "(real \<Rightarrow> real) \<Rightarrow> double \<Rightarrow> (error + BigDecimal) option" where
  "valueOfNumber rd v =
     (if \<not> isFinite v then Some (Inl NotFinite)
      else
        (case valueOfNumber_loop rd v 0 of
           None \<Rightarrow> None
         | Some (m, e) \<Rightarrow>
             Some (Inr (normalized \<lparr>significant = BigInt_of_number m, exponent = e\<rparr>))))"

section \<open>Square root\<close>

text \<open>
  \<^verbatim>\<open>
  sqrt(): BigDecimal {
    if (this.significant < 0n) { throw new Error("Negative numbers are not supported"); }
    let guess = BigDecimal.valueOf(Math.sqrt(this.number()));
    for (let i = 0; i < BigDecimal.#SQRT_ROUNDS; i++) {
      guess = guess.subtract(
        guess.multiply(guess).subtract(this).divide(guess.add(guess)),
      );
    }
    return guess.normalized();
  }\<close>
  with \<^verbatim>\<open>#SQRT_ROUNDS = 10\<close>; \<^verbatim>\<open>valueOf\<close> of a number is \<^verbatim>\<open>#valueOfNumber\<close>.
\<close>

definition newton_step :: "BigDecimal \<Rightarrow> BigDecimal \<Rightarrow> error + BigDecimal" where
  "newton_step this guess =
     (case divide_bd (subtract (multiply guess guess) this) (add guess guess) of
        Inl err \<Rightarrow> Inl err
      | Inr q \<Rightarrow> Inr (subtract guess q))"

function sqrt_loop :: "nat \<Rightarrow> BigDecimal \<Rightarrow> BigDecimal \<Rightarrow> error + BigDecimal" where
  "sqrt_loop i this guess =
     (if i < 10 then
        (case newton_step this guess of
           Inl err \<Rightarrow> Inl err
         | Inr guess' \<Rightarrow> sqrt_loop (i + 1) this guess')
      else Inr guess)"
  by pat_completeness auto
termination
  by (relation "measure (\<lambda>(i, this, guess). 10 - i)") auto

declare sqrt_loop.simps [simp del]

definition sqrt_bd :: "(real \<Rightarrow> real) \<Rightarrow> BigDecimal \<Rightarrow> (error + BigDecimal) option" where
  "sqrt_bd rd this =
     (if significant this < 0 then Some (Inl NegativeNotSupported)
      else
        (case valueOfNumber rd (Math_sqrt rd (number rd this)) of
           None \<Rightarrow> None
         | Some (Inl err) \<Rightarrow> Some (Inl err)
         | Some (Inr guess) \<Rightarrow>
             (case sqrt_loop 0 this guess of
                Inl err \<Rightarrow> Some (Inl err)
              | Inr g \<Rightarrow> Some (Inr (normalized g)))))"

section \<open>Normalization: invariant and idempotence\<close>

lemma smod_10_eq_0_iff: "(m::int) smod 10 = 0 \<longleftrightarrow> 10 dvd m"
proof -
  have "m smod 10 = 0 \<longleftrightarrow> m = 0 \<or> \<bar>m\<bar> mod 10 = 0"
    by (simp add: signed_modulo_int_def sgn_0_0)
  also have "\<dots> \<longleftrightarrow> 10 dvd \<bar>m\<bar>"
    by (auto simp only: mod_eq_0_iff_dvd abs_zero dvd_0_right)
  finally show ?thesis by simp
qed

lemma abs_sdiv_10: "\<bar>(m::int) sdiv 10\<bar> = \<bar>m\<bar> div 10"
  by (cases "m = 0") (simp_all add: signed_divide_int_def abs_mult)

lemma sdiv_10_nonzero: "(m::int) \<noteq> 0 \<Longrightarrow> 10 dvd m \<Longrightarrow> m sdiv 10 \<noteq> 0"
proof -
  assume "m \<noteq> 0" "10 dvd m"
  then have "10 \<le> \<bar>m\<bar>" by (auto elim: dvdE)
  then have "\<bar>m\<bar> div 10 \<noteq> 0" by simp
  then show ?thesis using abs_sdiv_10 [of m] by auto
qed

lemma normalized_while_loop:
  "m \<noteq> 0 \<Longrightarrow> normalized_while m e = Some (normalized_loop m e)"
proof (induction m e rule: normalized_loop.induct)
  case (1 m e)
  show ?case
  proof (cases "m smod 10 = 0")
    case True
    with 1 have "m sdiv 10 \<noteq> 0" by (simp add: smod_10_eq_0_iff sdiv_10_nonzero)
    with 1 True show ?thesis
      by (subst normalized_while.simps, subst normalized_loop.simps) simp
  next
    case False
    then show ?thesis
      by (subst normalized_while.simps, subst normalized_loop.simps) simp
  qed
qed

lemma normalized_loop_not_dvd:
  "m \<noteq> 0 \<Longrightarrow> significant (normalized_loop m e) \<noteq> 0 \<and> \<not> 10 dvd significant (normalized_loop m e)"
proof (induction m e rule: normalized_loop.induct)
  case (1 m e)
  show ?case
  proof (cases "m smod 10 = 0")
    case True
    with 1 have "m sdiv 10 \<noteq> 0" by (simp add: smod_10_eq_0_iff sdiv_10_nonzero)
    with 1 True show ?thesis
      by (subst (1 2) normalized_loop.simps) simp
  next
    case False
    with 1 show ?thesis
      by (subst (1 2) normalized_loop.simps) (simp add: smod_10_eq_0_iff)
  qed
qed

lemma normalized_loop_fixed:
  "\<not> 10 dvd m \<Longrightarrow> normalized_loop m e = \<lparr>significant = m, exponent = e\<rparr>"
  by (subst normalized_loop.simps) (simp add: smod_10_eq_0_iff)

lemma normalized_zero_iff [simp]:
  "significant (normalized x) = 0 \<longleftrightarrow> significant x = 0"
  using normalized_loop_not_dvd [of "significant x" "exponent x"]
  by (simp add: normalized_def)

lemma normalized_not_dvd:
  "significant x \<noteq> 0 \<Longrightarrow> \<not> 10 dvd significant (normalized x)"
  using normalized_loop_not_dvd [of "significant x" "exponent x"]
  by (simp add: normalized_def)

lemma normalized_fixed:
  "\<not> 10 dvd significant x \<Longrightarrow> normalized x = x"
  by (auto simp add: normalized_def normalized_loop_fixed)

lemma normalized_idem [simp]: "normalized (normalized x) = normalized x"
proof (cases "significant x = 0")
  case True
  then show ?thesis by (simp add: normalized_def)
next
  case False
  then show ?thesis by (simp add: normalized_fixed normalized_not_dvd)
qed

text \<open>
  C6. For every value \<open>x\<close>, \<open>normalized x\<close> satisfies the invariant: a nonzero
  significant is not divisible by 10, and a zero significant comes with exponent 0.
  Consequently \<open>normalized\<close> is idempotent, component-wise.
\<close>

theorem normalized_invariant_idempotent:
  "(significant (normalized x) \<noteq> 0 \<longrightarrow> \<not> 10 dvd significant (normalized x))
   \<and> (significant (normalized x) = 0 \<longrightarrow> exponent (normalized x) = 0)
   \<and> normalized (normalized x) = normalized x"
proof (intro conjI impI)
  assume "significant (normalized x) \<noteq> 0"
  then show "\<not> 10 dvd significant (normalized x)"
    by (simp add: normalized_not_dvd)
next
  assume "significant (normalized x) = 0"
  then have "significant x = 0" by simp
  then show "exponent (normalized x) = 0"
    by (simp add: normalized_def)
next
  show "normalized (normalized x) = normalized x" by simp
qed

theorem normalized_invariant_idempotent_witness:
  "(significant (normalized \<lparr>significant = 1200, exponent = - 3\<rparr>) \<noteq> 0
    \<and> \<not> 10 dvd significant (normalized \<lparr>significant = 1200, exponent = - 3\<rparr>)
    \<and> normalized \<lparr>significant = 1200, exponent = - 3\<rparr> = \<lparr>significant = 12, exponent = - 1\<rparr>)
   \<and> (significant (normalized \<lparr>significant = 0, exponent = 7\<rparr>) = 0
    \<and> exponent (normalized \<lparr>significant = 0, exponent = 7\<rparr>) = 0)"
proof -
  have a: "normalized \<lparr>significant = 1200, exponent = - 3\<rparr> = \<lparr>significant = 12, exponent = - 1\<rparr>"
    by code_simp
  have b: "normalized \<lparr>significant = 0, exponent = 7\<rparr> = \<lparr>significant = 0, exponent = 0\<rparr>"
    by code_simp
  show ?thesis
    using normalized_invariant_idempotent [of "\<lparr>significant = 1200, exponent = - 3\<rparr>"]
      normalized_invariant_idempotent [of "\<lparr>significant = 0, exponent = 7\<rparr>"]
    by (simp add: a b)
qed

section \<open>Negation\<close>

lemma negate_negate [simp]: "negate (negate x) = x"
  by (simp add: negate_def)

lemma significant_negate [simp]: "significant (negate x) = - significant x"
  by (simp add: negate_def)

lemma exponent_negate [simp]: "exponent (negate x) = exponent x"
  by (simp add: negate_def)

lemma sdiv_minus_left: "(- m) sdiv d = - (m sdiv (d::int))"
  by (simp add: signed_divide_int_def)

lemma smod_minus_left: "(- m) smod d = - (m smod (d::int))"
  by (simp add: signed_modulo_int_def)

lemma normalized_loop_minus:
  "normalized_loop (- m) e = negate (normalized_loop m e)"
proof (induction m e rule: normalized_loop.induct)
  case (1 m e)
  show ?case
  proof (cases "m \<noteq> 0 \<and> m smod 10 = 0")
    case True
    with 1 show ?thesis
      by (subst normalized_loop.simps, subst (2) normalized_loop.simps)
         (simp add: sdiv_minus_left smod_minus_left)
  next
    case False
    then show ?thesis
      by (subst normalized_loop.simps, subst (2) normalized_loop.simps)
         (auto simp add: smod_minus_left negate_def)
  qed
qed

lemma normalized_negate: "normalized (negate x) = negate (normalized x)"
  by (simp add: normalized_def normalized_loop_minus) 

lemma signum_negate: "signum (negate x) = - signum x"
  by (simp add: signum_def)

lemma signum_cases: "signum x = - 1 \<longleftrightarrow> significant x < 0"
  by (simp add: signum_def)

lemma negate_ZERO: "negate ZERO = ZERO"
  by (simp add: negate_def ZERO_def)

section \<open>Rounding and negation\<close>

lemma round_bd_unfold:
  "round_bd x m p False =
     (let n = normalized x in
      if significant n = 0 then ZERO
      else if - exponent n - p \<le> 0 then n
      else (case m of
             Ceiling \<Rightarrow> normalized (roundCeiling n p)
           | Floor \<Rightarrow> normalized (roundFloor n p)
           | Up \<Rightarrow> normalized (roundUp n p)
           | Down \<Rightarrow> normalized (roundDown n p)
           | HalfUp \<Rightarrow> normalized (roundHalfUp n p)
           | HalfDown \<Rightarrow> normalized (roundHalfDown n p)
           | HalfEven \<Rightarrow> normalized (roundHalfEven n p)))"
proof (cases "significant x = 0")
  case True
  then have "normalized x = \<lparr>significant = 0, exponent = 0\<rparr>"
    by (simp add: normalized_def)
  then show ?thesis
    by (simp add: round_bd.simps [of x m p False]
        round_bd.simps [of "\<lparr>significant = 0, exponent = 0\<rparr>" m p True] signum_def)
next
  case False
  then have "significant (normalized x) \<noteq> 0" by simp
  then show ?thesis
    by (simp add: round_bd.simps [of x m p False]
        round_bd.simps [of "normalized x" m p True] signum_def Let_def)
qed

lemma roundFloor_negate:
  "significant n \<noteq> 0 \<Longrightarrow> roundFloor (negate n) p = negate (roundCeiling n p)"
proof (cases "significant n < 0")
  case True
  then show ?thesis
    by (simp add: roundCeiling.simps [of n p] signum_cases)
next
  case False
  assume "significant n \<noteq> 0"
  with False show ?thesis
    by (simp add: roundFloor.simps [of "negate n" p] signum_cases)
qed

lemma roundCeiling_negate:
  "significant n \<noteq> 0 \<Longrightarrow> roundCeiling (negate n) p = negate (roundFloor n p)"
proof (cases "significant n < 0")
  case True
  then show ?thesis
    by (simp add: roundFloor.simps [of n p] signum_cases)
next
  case False
  assume "significant n \<noteq> 0"
  with False show ?thesis
    by (simp add: roundCeiling.simps [of "negate n" p] signum_cases)
qed

lemma roundUp_negate:
  "significant n \<noteq> 0 \<Longrightarrow> roundUp (negate n) p = negate (roundUp n p)"
proof (cases "significant n < 0")
  case True
  then show ?thesis
    by (simp add: roundUp.simps [of n p] signum_cases)
next
  case False
  assume "significant n \<noteq> 0"
  with False show ?thesis
    by (simp add: roundUp.simps [of "negate n" p] signum_cases)
qed

lemma roundDown_negate:
  "significant n \<noteq> 0 \<Longrightarrow> roundDown (negate n) p = negate (roundDown n p)"
proof (cases "significant n < 0")
  case True
  then show ?thesis
    by (simp add: roundDown.simps [of n p] signum_cases)
next
  case False
  assume "significant n \<noteq> 0"
  with False show ?thesis
    by (simp add: roundDown.simps [of "negate n" p] signum_cases)
qed

lemma roundHalfUp_negate:
  "significant n \<noteq> 0 \<Longrightarrow> roundHalfUp (negate n) p = negate (roundHalfUp n p)"
proof (cases "significant n < 0")
  case True
  then show ?thesis
    by (simp add: roundHalfUp.simps [of n p] signum_cases)
next
  case False
  assume "significant n \<noteq> 0"
  with False show ?thesis
    by (simp add: roundHalfUp.simps [of "negate n" p] signum_cases)
qed

lemma roundHalfDown_negate:
  "significant n \<noteq> 0 \<Longrightarrow> roundHalfDown (negate n) p = negate (roundHalfDown n p)"
proof (cases "significant n < 0")
  case True
  then show ?thesis
    by (simp add: roundHalfDown.simps [of n p] signum_cases)
next
  case False
  assume "significant n \<noteq> 0"
  with False show ?thesis
    by (simp add: roundHalfDown.simps [of "negate n" p] signum_cases)
qed

lemma roundHalfEven_negate:
  "significant n \<noteq> 0 \<Longrightarrow> roundHalfEven (negate n) p = negate (roundHalfEven n p)"
proof (cases "significant n < 0")
  case True
  then show ?thesis
    by (simp add: roundHalfEven.simps [of n p] signum_cases)
next
  case False
  assume "significant n \<noteq> 0"
  with False show ?thesis
    by (simp add: roundHalfEven.simps [of "negate n" p] signum_cases)
qed

lemmas round_negate_private =
  roundFloor_negate roundCeiling_negate roundUp_negate roundDown_negate
  roundHalfUp_negate roundHalfDown_negate roundHalfEven_negate

text \<open>
  C3. For every value \<open>x\<close> and every precision \<open>p\<close>: rounding the negated value
  with \<open>Floor\<close> is the negation of rounding with \<open>Ceiling\<close> and conversely, and each of
  \<open>Up\<close>, \<open>Down\<close>, \<open>HalfUp\<close>, \<open>HalfDown\<close>, \<open>HalfEven\<close> commutes with negation.
\<close>

theorem round_negate_mirror:
  "round_bd (negate x) Floor p False = negate (round_bd x Ceiling p False)
   \<and> round_bd (negate x) Ceiling p False = negate (round_bd x Floor p False)
   \<and> round_bd (negate x) Up p False = negate (round_bd x Up p False)
   \<and> round_bd (negate x) Down p False = negate (round_bd x Down p False)
   \<and> round_bd (negate x) HalfUp p False = negate (round_bd x HalfUp p False)
   \<and> round_bd (negate x) HalfDown p False = negate (round_bd x HalfDown p False)
   \<and> round_bd (negate x) HalfEven p False = negate (round_bd x HalfEven p False)"
  by (simp add: round_bd_unfold Let_def normalized_negate negate_ZERO round_negate_private)

section \<open>Half-even rounding\<close>

lemma sdiv_nonneg: "0 \<le> m \<Longrightarrow> 0 < d \<Longrightarrow> m sdiv d = m div (d::int)"
  by (cases "m = 0") (simp_all add: signed_divide_int_def)

lemma smod_nonneg: "0 \<le> m \<Longrightarrow> 0 < d \<Longrightarrow> m smod d = m mod (d::int)"
  by (cases "m = 0") (simp_all add: signed_modulo_int_def)

lemma pow10_sdiv_10: "0 < k \<Longrightarrow> (10::int) ^ k sdiv 10 = 10 ^ (k - 1)"
  by (cases k) (simp_all add: sdiv_nonneg)

lemma digit_after:
  "0 \<le> m \<Longrightarrow> 0 < k \<Longrightarrow> (m mod 10 ^ k) div 10 ^ (k - 1) = (m div 10 ^ (k - 1)) mod (10::int)"
proof -
  assume "0 \<le> m" "0 < k"
  then obtain j where k: "k = Suc j" by (cases k) auto
  have "m mod (10 ^ j * 10) = 10 ^ j * (m div 10 ^ j mod 10) + m mod 10 ^ j"
    by (rule zmod_zmult2_eq) simp
  then have "(m mod 10 ^ k) div 10 ^ j = (10 ^ j * (m div 10 ^ j mod 10) + m mod 10 ^ j) div 10 ^ j"
    by (simp add: k mult.commute)
  also have "\<dots> = m div 10 ^ j mod 10"
    by simp
  finally show ?thesis by (simp add: k)
qed

lemma remainder_digit:
  assumes "0 \<le> m" "0 < k"
  shows "(m smod 10 ^ k) sdiv (10 ^ k sdiv 10) = (m div 10 ^ (k - 1)) mod (10::int)"
proof -
  have a: "m smod 10 ^ k = m mod 10 ^ k"
    using assms by (simp add: smod_nonneg)
  have b: "(10::int) ^ k sdiv 10 = 10 ^ (k - 1)"
    using assms by (rule_tac pow10_sdiv_10)
  have c: "(m mod 10 ^ k) sdiv 10 ^ (k - 1) = (m mod 10 ^ k) div 10 ^ (k - 1)"
    by (rule sdiv_nonneg) simp_all
  show ?thesis
    unfolding a b c using assms by (rule digit_after)
qed

lemma smod_2_even: "0 \<le> b \<Longrightarrow> b smod 2 = 0 \<longleftrightarrow> even (b::int)"
  by (simp add: smod_nonneg even_iff_mod_2_eq_zero)

lemma roundHalfEven_pos:
  assumes "0 < significant n" "0 < - exponent n - p"
  shows "roundHalfEven n p =
           \<lparr>significant = kept_base n p + halfEven_increment (kept_base n p) (next_digit n p),
            exponent = - p\<rparr>"
proof -
  let ?k = "nat (- exponent n - p)"
  have k: "0 < ?k" using assms by simp
  have m: "0 \<le> significant n" using assms by simp
  have b: "0 \<le> significant n div 10 ^ ?k" using m by (simp add: pos_imp_zdiv_nonneg_iff)
  have d: "(significant n smod 10 ^ ?k) sdiv (10 ^ ?k sdiv 10) = next_digit n p"
    using remainder_digit [OF m k] m by (simp add: next_digit_def)
  have s: "significant n sdiv 10 ^ ?k = kept_base n p"
    using m by (simp add: kept_base_def sdiv_nonneg)
  have e: "kept_base n p smod 2 = 0 \<longleftrightarrow> even (kept_base n p)"
    using b m by (simp add: kept_base_def smod_2_even)
  show ?thesis
    using assms
    by (simp add: roundHalfEven.simps [of n p] signum_def Let_def d s e halfEven_increment_def)
qed

lemma round_HalfEven_spec: "round_bd x HalfEven p False = round_halfEven_spec x p"
proof -
  let ?n = "normalized x"
  show ?thesis
  proof (cases "significant ?n = 0 \<or> - exponent ?n - p \<le> 0")
    case True
    then show ?thesis by (auto simp add: round_bd_unfold round_halfEven_spec_def Let_def)
  next
    case False
    then have nz: "significant ?n \<noteq> 0" and k: "0 < - exponent ?n - p" by auto
    show ?thesis
    proof (cases "0 < significant ?n")
      case True
      then show ?thesis using k
        by (simp add: round_bd_unfold round_halfEven_spec_def Let_def roundHalfEven_pos)
    next
      case False
      with nz have lt: "significant ?n < 0" by linarith
      then have neg: "0 < significant (negate ?n)" by simp
      have k': "0 < - exponent (negate ?n) - p" using k by simp
      have "roundHalfEven ?n p = negate (roundHalfEven (negate ?n) p)"
        using lt by (simp add: roundHalfEven.simps [of ?n p] signum_cases)
      also have "\<dots> = negate \<lparr>significant = kept_base (negate ?n) p
            + halfEven_increment (kept_base (negate ?n) p) (next_digit (negate ?n) p), exponent = - p\<rparr>"
        by (simp only: roundHalfEven_pos [OF neg k'])
      also have "\<dots> = \<lparr>significant = sgn (significant ?n) *
                 (kept_base ?n p + halfEven_increment (kept_base ?n p) (next_digit ?n p)),
              exponent = - p\<rparr>"
      proof -
        have kb: "kept_base (negate ?n) p = kept_base ?n p"
          by (simp add: kept_base_def)
        have nd: "next_digit (negate ?n) p = next_digit ?n p"
          by (simp add: next_digit_def)
        have sg: "sgn (significant ?n) = - 1"
          using lt by (simp only: sgn_neg)
        show ?thesis
          unfolding kb nd sg by (simp add: negate_def)
      qed
      finally show ?thesis using nz k
        by (simp add: round_bd_unfold round_halfEven_spec_def Let_def)
    qed
  qed
qed

text \<open>
  C2. For every value \<open>x\<close> and precision \<open>p \<ge> 0\<close>, rounding with \<open>HalfEven\<close> keeps the
  first \<open>p\<close> fractional digits of the normalized value as the base and increments it
  exactly when the digit immediately beyond is greater than 5, or is 5 with the base
  odd (never when it is less than 5). At precision 1, \<open>"2.15"\<close> and \<open>"2.25"\<close> both
  round to \<open>"2.2"\<close>.
\<close>

theorem round_halfEven_rule:
  "0 \<le> p \<Longrightarrow>
     round_bd x HalfEven p False = round_halfEven_spec x p
     \<and> round_string ''2.15'' HalfEven 1 = Inr ''2.2''
     \<and> round_string ''2.25'' HalfEven 1 = Inr ''2.2''"
proof (intro conjI)
  show "round_bd x HalfEven p False = round_halfEven_spec x p"
    by (rule round_HalfEven_spec)
  show "round_string ''2.15'' HalfEven 1 = Inr ''2.2''"
    by code_simp
  show "round_string ''2.25'' HalfEven 1 = Inr ''2.2''"
    by code_simp
qed

theorem round_halfEven_rule_witness:
  "(0::int) \<le> 1
   \<and> round_bd \<lparr>significant = 215, exponent = - 2\<rparr> HalfEven 1 False
       = \<lparr>significant = 22, exponent = - 1\<rparr>
   \<and> kept_base \<lparr>significant = 215, exponent = - 2\<rparr> 1 = 21
   \<and> next_digit \<lparr>significant = 215, exponent = - 2\<rparr> 1 = 5"
proof -
  have a: "round_halfEven_spec \<lparr>significant = 215, exponent = - 2\<rparr> 1
             = \<lparr>significant = 22, exponent = - 1\<rparr>"
    by code_simp
  have b: "kept_base \<lparr>significant = 215, exponent = - 2\<rparr> 1 = 21"
    by code_simp
  have c: "next_digit \<lparr>significant = 215, exponent = - 2\<rparr> 1 = 5"
    by code_simp
  show ?thesis
    using round_halfEven_rule [of 1 "\<lparr>significant = 215, exponent = - 2\<rparr>"] a b c
    by simp
qed

section \<open>Addition in closed form, scaling\<close>

lemma add_closed:
  "add a b =
     normalized \<lparr>significant = significant a * 10 ^ nat (exponent a - exponent b)
                                + significant b * 10 ^ nat (exponent b - exponent a),
                 exponent = min (exponent a) (exponent b)\<rparr>"
proof (cases "exponent a < exponent b")
  case True
  then show ?thesis
    by (simp add: add.simps [of a b] add.simps [of b a] Let_def min_def add.commute)
next
  case False
  then show ?thesis
    by (simp add: add.simps [of a b] Let_def min_def add.commute)
qed

lemma add_negate: "add (negate a) (negate b) = negate (add a b)"
  by (simp add: add_closed [of "negate a"] add_closed [of a] normalized_negate [symmetric])
     (simp add: negate_def)

lemma times_10_sdiv_10: "(a * 10) sdiv 10 = (a::int)"
proof -
  have "sgn (a * 10) = sgn a" by (simp add: sgn_mult)
  moreover have "\<bar>a * 10\<bar> div 10 = \<bar>a\<bar>" by (simp add: abs_mult)
  ultimately show ?thesis
    by (simp add: signed_divide_int_def sgn_mult_abs)
qed

lemma normalized_loop_times_10:
  "m \<noteq> 0 \<Longrightarrow> normalized_loop (m * 10) e = normalized_loop m (e + 1)"
  by (subst normalized_loop.simps) (simp add: smod_10_eq_0_iff times_10_sdiv_10)

lemma normalized_scale:
  "normalized \<lparr>significant = m * 10 ^ j, exponent = e\<rparr>
     = normalized \<lparr>significant = m, exponent = e + int j\<rparr>"
proof (induction j arbitrary: e)
  case 0
  show ?case by simp
next
  case (Suc j)
  show ?case
  proof (cases "m = 0")
    case True
    then show ?thesis by (simp add: normalized_def)
  next
    case False
    then have nz: "m * 10 ^ j \<noteq> 0" by simp
    have "normalized \<lparr>significant = m * 10 ^ Suc j, exponent = e\<rparr>
            = normalized_loop (m * 10 ^ j * 10) e"
      using False by (simp add: normalized_def mult.assoc mult.commute [of 10])
    also have "\<dots> = normalized_loop (m * 10 ^ j) (e + 1)"
      using nz by (rule normalized_loop_times_10)
    also have "\<dots> = normalized \<lparr>significant = m * 10 ^ j, exponent = e + 1\<rparr>"
      using nz by (simp add: normalized_def)
    also have "\<dots> = normalized \<lparr>significant = m, exponent = e + 1 + int j\<rparr>"
      by (rule Suc.IH)
    finally show ?thesis by (simp add: algebra_simps)
  qed
qed

section \<open>Values\<close>

lemma powi_Suc: "(10::real) powi (e + 1) = 10 * 10 powi e"
  by (simp add: power_int_add)

lemma dvd_10_sdiv: "10 dvd m \<Longrightarrow> 10 * (m sdiv 10) = (m::int)"
  by (auto simp add: times_10_sdiv_10 mult.commute elim!: dvdE)

lemma val_normalized_loop: "val (normalized_loop m e) = of_int m * 10 powi e"
proof (induction m e rule: normalized_loop.induct)
  case (1 m e)
  show ?case
  proof (cases "m \<noteq> 0 \<and> m smod 10 = 0")
    case True
    then have "10 * (m sdiv 10) = m" by (simp add: smod_10_eq_0_iff dvd_10_sdiv)
    then have "(of_int m :: real) = 10 * of_int (m sdiv 10)"
      by (metis of_int_mult of_int_numeral)
    with 1 True show ?thesis
      by (subst normalized_loop.simps) (simp add: powi_Suc)
  next
    case False
    then show ?thesis
      by (subst normalized_loop.simps) (auto simp add: val_def)
  qed
qed

lemma val_normalized [simp]: "val (normalized x) = val x"
  by (simp add: normalized_def val_normalized_loop) (simp add: val_def)

lemma val_negate [simp]: "val (negate x) = - val x"
  by (simp add: val_def negate_def)

lemma val_mk: "val \<lparr>significant = m, exponent = e\<rparr> = of_int m * 10 powi e"
  by (simp add: val_def)

lemma powi_pos [simp]: "0 < (10::real) powi e"
  by (rule zero_less_power_int) simp

lemma powi_split: "e \<le> f \<Longrightarrow> (10::real) powi f = 10 ^ nat (f - e) * 10 powi e"
proof -
  assume "e \<le> f"
  then have f: "f = int (nat (f - e)) + e" by simp
  have "(10::real) powi (int (nat (f - e)) + e) = 10 powi int (nat (f - e)) * 10 powi e"
    by (rule power_int_add) simp
  also have "\<dots> = 10 ^ nat (f - e) * 10 powi e"
    by (simp only: power_int_of_nat)
  finally show ?thesis using f by simp
qed

lemma val_add [simp]: "val (add a b) = val a + val b"
proof (cases "exponent a \<le> exponent b")
  case True
  then have "nat (exponent a - exponent b) = 0" by simp
  then show ?thesis
    using powi_split [OF True]
    by (simp add: add_closed val_mk min_def algebra_simps) (simp add: val_def)
next
  case False
  then have le: "exponent b \<le> exponent a" by simp
  then have "nat (exponent b - exponent a) = 0" by simp
  then show ?thesis
    using powi_split [OF le] False
    by (simp add: add_closed val_mk min_def algebra_simps) (simp add: val_def)
qed

lemma val_subtract [simp]: "val (subtract a b) = val a - val b"
  by (simp add: subtract_def)

lemma val_multiply [simp]: "val (multiply a b) = val a * val b"
  by (simp add: multiply_def val_mk power_int_add) (simp add: val_def)

lemma powi_not_less [simp]: "\<not> (10::real) powi e < 0"
  using powi_pos [of e] by linarith

lemma powi_not_le [simp]: "\<not> (10::real) powi e \<le> 0"
  using powi_pos [of e] by linarith

lemma powi_neg_exp: "e < 0 \<Longrightarrow> (10::real) powi e = 1 / of_int (10 ^ nat (- e))"
proof -
  assume "e < 0"
  then have "(10::real) powi e = inverse 10 ^ nat (- e)"
    by (simp add: power_int_def)
  also have "\<dots> = 1 / 10 ^ nat (- e)"
    by (simp add: power_one_over inverse_eq_divide)
  finally show ?thesis by simp
qed

lemma val_sign: "0 < val x \<longleftrightarrow> 0 < significant x"
  by (simp add: val_def zero_less_mult_iff)

lemma val_nonneg: "0 \<le> val x \<longleftrightarrow> 0 \<le> significant x"
  by (simp add: val_def zero_le_mult_iff)

lemma val_zero: "val x = 0 \<longleftrightarrow> significant x = 0"
  by (simp add: val_def)

section \<open>Integral and decimal part\<close>

lemma BigDecimal_eta [simp]:
  "\<lparr>significant = significant x, exponent = exponent x\<rparr> = (x::BigDecimal)"
  by (cases x) simp

lemma split_nonneg:
  assumes "0 \<le> significant x"
  shows "normalized (add (integralPart x) (decimalPart x)) = normalized x"
proof -
  let ?n = "normalized x"
  show ?thesis
  proof (cases "0 \<le> exponent ?n")
    case True
    have "add (integralPart x) (decimalPart x) = add ?n ZERO"
      using assms True by (simp add: integralPart.simps [of x] decimalPart.simps [of x] Let_def)
    also have "\<dots> = normalized \<lparr>significant = significant ?n * 10 ^ nat (exponent ?n), exponent = 0\<rparr>"
      using True by (simp add: add_closed ZERO_def)
    also have "\<dots> = normalized \<lparr>significant = significant ?n, exponent = exponent ?n\<rparr>"
      using True by (simp add: normalized_scale)
    finally show ?thesis by simp
  next
    case False
    let ?k = "nat (- exponent ?n)"
    have "add (integralPart x) (decimalPart x)
            = add \<lparr>significant = significant ?n sdiv 10 ^ ?k, exponent = 0\<rparr>
                  \<lparr>significant = significant ?n smod 10 ^ ?k, exponent = exponent ?n\<rparr>"
      using assms False by (simp add: integralPart.simps [of x] decimalPart.simps [of x] Let_def)
    also have "\<dots> = normalized \<lparr>significant = significant ?n sdiv 10 ^ ?k * 10 ^ ?k
                         + significant ?n smod 10 ^ ?k, exponent = exponent ?n\<rparr>"
      using False by (simp add: add_closed)
    also have "\<dots> = normalized \<lparr>significant = significant ?n, exponent = exponent ?n\<rparr>"
      by (simp only: sdiv_mult_smod_eq)
    finally show ?thesis by simp
  qed
qed

lemma split_normalized:
  "normalized (add (integralPart x) (decimalPart x)) = normalized x"
proof (cases "0 \<le> significant x")
  case True
  then show ?thesis by (rule split_nonneg)
next
  case False
  then have neg: "0 \<le> significant (negate x)" by simp
  have "add (integralPart x) (decimalPart x)
          = negate (add (integralPart (negate x)) (decimalPart (negate x)))"
    using False by (simp add: integralPart.simps [of x] decimalPart.simps [of x] add_negate)
  then have "normalized (add (integralPart x) (decimalPart x)) = negate (normalized (negate x))"
    using split_nonneg [OF neg] by (simp add: normalized_negate)
  then show ?thesis by (simp add: normalized_negate)
qed

lemma split_identity: "equalValue (add (integralPart x) (decimalPart x)) x"
  by (simp add: equalValue_def equals_def split_normalized)

lemma integralPart_nonneg_val:
  assumes "0 \<le> significant x"
  shows "val (integralPart x) = of_int \<lfloor>val x\<rfloor>"
proof -
  let ?n = "normalized x"
  have v: "val ?n = val x" by simp
  have m: "0 \<le> significant ?n"
    using assms val_nonneg [of ?n] val_nonneg [of x] by simp
  show ?thesis
  proof (cases "0 \<le> exponent ?n")
    case True
    then have "val ?n = of_int (significant ?n * 10 ^ nat (exponent ?n))"
      by (simp add: val_def power_int_def)
    then have "of_int \<lfloor>val ?n\<rfloor> = val ?n" by (metis floor_of_int)
    moreover have "integralPart x = ?n"
      using assms True by (simp add: integralPart.simps [of x] Let_def)
    ultimately show ?thesis by (simp only: v)
  next
    case False
    let ?k = "nat (- exponent ?n)"
    have "val ?n = of_int (significant ?n) / of_int (10 ^ ?k)"
      using False by (simp only: val_def powi_neg_exp not_le times_divide_eq_right mult_1_right)
    then have "\<lfloor>val ?n\<rfloor> = significant ?n div 10 ^ ?k"
      by (simp only: floor_divide_of_int_eq)
    moreover have "integralPart x = \<lparr>significant = significant ?n sdiv 10 ^ ?k, exponent = 0\<rparr>"
      using assms False by (simp add: integralPart.simps [of x] Let_def)
    moreover have "significant ?n sdiv 10 ^ ?k = significant ?n div 10 ^ ?k"
      using m by (simp add: sdiv_nonneg)
    ultimately show ?thesis using v by (simp add: val_mk)
  qed
qed

lemma integralPart_val: "val (integralPart x) = of_int (truncate_toward_zero (val x))"
proof (cases "0 \<le> significant x")
  case True
  then have "0 \<le> val x" by (simp add: val_nonneg)
  with True show ?thesis
    by (simp add: integralPart_nonneg_val truncate_toward_zero_def)
next
  case False
  then have neg: "0 \<le> significant (negate x)" and lt: "val x < 0"
    using val_nonneg [of x] by simp_all
  have "integralPart x = negate (integralPart (negate x))"
    using False by (simp add: integralPart.simps [of x])
  then have "val (integralPart x) = - of_int \<lfloor>val (negate x)\<rfloor>"
    using integralPart_nonneg_val [OF neg] by simp
  then show ?thesis using lt by (simp add: truncate_toward_zero_def)
qed

lemma decimalPart_sign_nonneg:
  assumes "0 \<le> significant x"
  shows "0 \<le> significant (integralPart x) \<and> 0 \<le> significant (decimalPart x)"
proof -
  let ?n = "normalized x"
  have m: "0 \<le> significant ?n"
    using assms val_nonneg [of ?n] val_nonneg [of x] by simp
  then have "0 \<le> significant ?n div 10 ^ nat (- exponent ?n)"
    and "0 \<le> significant ?n mod 10 ^ nat (- exponent ?n)"
    by (simp_all add: pos_imp_zdiv_nonneg_iff)
  then show ?thesis
    using assms m
    by (simp add: integralPart.simps [of x] decimalPart.simps [of x] Let_def ZERO_def
        sdiv_nonneg smod_nonneg)
qed

text \<open>
  C7. For every value \<open>x\<close>, negative ones included: \<open>integralPart x\<close> is the value of
  \<open>x\<close> truncated toward zero, \<open>integralPart x\<close> plus \<open>decimalPart x\<close> is equal in value to
  \<open>x\<close> (\<open>equalValue\<close>, hence exactly), and for a negative \<open>x\<close> both parts are those of
  the negated value, negated back, so that each part carries the sign of \<open>x\<close>.
\<close>

theorem integral_decimal_split:
  "equalValue (add (integralPart x) (decimalPart x)) x
   \<and> val (integralPart x) = of_int (truncate_toward_zero (val x))
   \<and> val (integralPart x) + val (decimalPart x) = val x
   \<and> (significant x < 0 \<longrightarrow>
        integralPart x = negate (integralPart (negate x))
        \<and> decimalPart x = negate (decimalPart (negate x))
        \<and> significant (integralPart x) \<le> 0 \<and> significant (decimalPart x) \<le> 0)
   \<and> (0 \<le> significant x \<longrightarrow>
        0 \<le> significant (integralPart x) \<and> 0 \<le> significant (decimalPart x))"
proof (intro conjI impI)
  show eq: "equalValue (add (integralPart x) (decimalPart x)) x"
    by (rule split_identity)
  show "val (integralPart x) = of_int (truncate_toward_zero (val x))"
    by (rule integralPart_val)
  have "normalized (add (integralPart x) (decimalPart x)) = normalized x"
    by (rule split_normalized)
  then have "val (normalized (add (integralPart x) (decimalPart x))) = val (normalized x)"
    by (rule arg_cong)
  then show "val (integralPart x) + val (decimalPart x) = val x"
    by simp
next
  assume neg: "significant x < 0"
  show ip: "integralPart x = negate (integralPart (negate x))"
    using neg by (simp add: integralPart.simps [of x])
  show dp: "decimalPart x = negate (decimalPart (negate x))"
    using neg by (simp add: decimalPart.simps [of x])
  have "0 \<le> significant (negate x)" using neg by simp
  then have "0 \<le> significant (integralPart (negate x))
             \<and> 0 \<le> significant (decimalPart (negate x))"
    by (rule decimalPart_sign_nonneg)
  then show "significant (integralPart x) \<le> 0" and "significant (decimalPart x) \<le> 0"
    by (simp_all add: ip dp)
next
  assume "0 \<le> significant x"
  then show "0 \<le> significant (integralPart x)" and "0 \<le> significant (decimalPart x)"
    using decimalPart_sign_nonneg [of x] by simp_all
qed

theorem integral_decimal_split_witness:
  "(significant \<lparr>significant = - 25, exponent = - 1\<rparr> < 0
    \<and> significant (integralPart \<lparr>significant = - 25, exponent = - 1\<rparr>) \<le> 0
    \<and> significant (decimalPart \<lparr>significant = - 25, exponent = - 1\<rparr>) \<le> 0
    \<and> equalValue (add (integralPart \<lparr>significant = - 25, exponent = - 1\<rparr>)
                       (decimalPart \<lparr>significant = - 25, exponent = - 1\<rparr>))
          \<lparr>significant = - 25, exponent = - 1\<rparr>)
   \<and> (0 \<le> significant \<lparr>significant = 1207, exponent = - 2\<rparr>
    \<and> 0 \<le> significant (integralPart \<lparr>significant = 1207, exponent = - 2\<rparr>)
    \<and> 0 \<le> significant (decimalPart \<lparr>significant = 1207, exponent = - 2\<rparr>))
   \<and> integralPart \<lparr>significant = - 25, exponent = - 1\<rparr> = \<lparr>significant = - 2, exponent = 0\<rparr>
   \<and> decimalPart \<lparr>significant = - 25, exponent = - 1\<rparr> = \<lparr>significant = - 5, exponent = - 1\<rparr>"
proof -
  have a: "integralPart \<lparr>significant = - 25, exponent = - 1\<rparr> = \<lparr>significant = - 2, exponent = 0\<rparr>"
    by code_simp
  have b: "decimalPart \<lparr>significant = - 25, exponent = - 1\<rparr> = \<lparr>significant = - 5, exponent = - 1\<rparr>"
    by code_simp
  have c: "significant \<lparr>significant = - 25, exponent = - 1\<rparr> < 0"
    and d: "0 \<le> significant \<lparr>significant = 1207, exponent = - 2\<rparr>"
    by simp_all
  show ?thesis
    using integral_decimal_split [of "\<lparr>significant = - 25, exponent = - 1\<rparr>"]
      integral_decimal_split [of "\<lparr>significant = 1207, exponent = - 2\<rparr>"] a b c d
    by blast
qed

section \<open>Parsing a minus sign before a zero integer part; printing small values\<close>

text \<open>
  C4. A string \<open>"-U.F"\<close> should parse as \<open>-(U + 0.F)\<close>. The code negates the fraction
  when the parsed integer part is negative; \<open>"-2.5"\<close> parses as \<open>-25 * 10^-1\<close>, but
  the integer part of \<open>"-0.5"\<close> is \<open>BigInt("-0") = 0n\<close>, whose signum is 0, so the
  fraction stays positive and the result is \<open>+5 * 10^-1\<close>.
\<close>

theorem valueOfString_minus_zero_units:
  "valueOfString ''-0.5'' = Inr \<lparr>significant = 5, exponent = - 1\<rparr>
   \<and> valueOfString ''-2.5'' = Inr \<lparr>significant = - 25, exponent = - 1\<rparr>"
proof (intro conjI)
  show "valueOfString ''-0.5'' = Inr \<lparr>significant = 5, exponent = - 1\<rparr>"
    by code_simp
  show "valueOfString ''-2.5'' = Inr \<lparr>significant = - 25, exponent = - 1\<rparr>"
    by code_simp
qed

text \<open>
  C5. Parsing a canonical decimal string and printing the result should give the string
  back. It does for \<open>"10.325"\<close>; but \<open>toString\<close> cuts the digit string of the
  significant at \<open>length + exponent\<close> without padding it with zeros, so \<open>"0.5"\<close> comes
  back as \<open>".5"\<close> and \<open>"0.05"\<close> and \<open>"-0.05"\<close> come back as \<open>".5"\<close> too.
\<close>

theorem toString_drops_leading_zeros:
  "valueOfString ''10.325'' = Inr \<lparr>significant = 10325, exponent = - 3\<rparr>
   \<and> toString \<lparr>significant = 10325, exponent = - 3\<rparr> = ''10.325''
   \<and> valueOfString ''0.5'' = Inr \<lparr>significant = 5, exponent = - 1\<rparr>
   \<and> toString \<lparr>significant = 5, exponent = - 1\<rparr> = ''.5''
   \<and> valueOfString ''0.05'' = Inr \<lparr>significant = 5, exponent = - 2\<rparr>
   \<and> valueOfString ''-0.05'' = Inr \<lparr>significant = 5, exponent = - 2\<rparr>
   \<and> toString \<lparr>significant = 5, exponent = - 2\<rparr> = ''.5''"
proof (intro conjI)
  show "valueOfString ''10.325'' = Inr \<lparr>significant = 10325, exponent = - 3\<rparr>"
    by code_simp
  show "toString \<lparr>significant = 10325, exponent = - 3\<rparr> = ''10.325''"
    by code_simp
  show "valueOfString ''0.5'' = Inr \<lparr>significant = 5, exponent = - 1\<rparr>"
    by code_simp
  show "toString \<lparr>significant = 5, exponent = - 1\<rparr> = ''.5''"
    by code_simp
  show "valueOfString ''0.05'' = Inr \<lparr>significant = 5, exponent = - 2\<rparr>"
    by code_simp
  show "valueOfString ''-0.05'' = Inr \<lparr>significant = 5, exponent = - 2\<rparr>"
    by code_simp
  show "toString \<lparr>significant = 5, exponent = - 2\<rparr> = ''.5''"
    by code_simp
qed

section \<open>Division: error cases\<close>

text \<open>
  C1. \<open>divide_bd a b\<close> fails with \<open>DivisionUndefined\<close> exactly when both significants are
  zero, fails with \<open>DivisionByZero\<close> exactly when the divisor is zero and the dividend
  is not, and returns the literal zero \<open>(0, 0)\<close> whenever the dividend is zero and the
  divisor is not; \<open>divide_bd ZERO ZERO\<close> and \<open>divide_bd ONE ZERO\<close> are the two failures.
\<close>

theorem divide_error_cases:
  "(divide_bd a b = Inl DivisionUndefined \<longleftrightarrow> significant a = 0 \<and> significant b = 0)
   \<and> (divide_bd a b = Inl DivisionByZero \<longleftrightarrow> significant a \<noteq> 0 \<and> significant b = 0)
   \<and> (significant a = 0 \<and> significant b \<noteq> 0 \<longrightarrow> divide_bd a b = Inr ZERO)
   \<and> ((\<exists>e. divide_bd a b = Inl e) \<longleftrightarrow> significant b = 0)
   \<and> divide_bd ZERO ZERO = Inl DivisionUndefined
   \<and> divide_bd ONE ZERO = Inl DivisionByZero"
  by (auto simp add: divide_bd_def ZERO_def ONE_def split: prod.splits)

theorem divide_error_cases_witness:
  "significant \<lparr>significant = 0, exponent = 4\<rparr> = 0
   \<and> significant \<lparr>significant = 3, exponent = - 2\<rparr> \<noteq> 0
   \<and> divide_bd \<lparr>significant = 0, exponent = 4\<rparr> \<lparr>significant = 3, exponent = - 2\<rparr> = Inr ZERO"
  using divide_error_cases [of "\<lparr>significant = 0, exponent = 4\<rparr>" "\<lparr>significant = 3, exponent = - 2\<rparr>"]
  by simp

section \<open>Division: scaling budget and precision\<close>

lemma smod_eq_0_iff_dvd: "(m::int) smod d = 0 \<longleftrightarrow> d dvd m"
proof -
  have "m smod d = 0 \<longleftrightarrow> m = 0 \<or> \<bar>m\<bar> mod \<bar>d\<bar> = 0"
    by (simp add: signed_modulo_int_def sgn_0_0)
  also have "\<dots> \<longleftrightarrow> \<bar>d\<bar> dvd \<bar>m\<bar>"
    by (auto simp only: mod_eq_0_iff_dvd abs_zero dvd_0_right)
  finally show ?thesis by simp
qed

lemma divide_loop_spec:
  "i \<le> 10 \<Longrightarrow>
     \<exists>k. i + k \<le> 10
       \<and> divide_loop i m e d = (m * 10 ^ k, e - int k)
       \<and> (\<forall>j<k. \<not> d dvd m * 10 ^ j)
       \<and> (i + k < 10 \<longrightarrow> d dvd m * 10 ^ k)"
proof (induction i m e d rule: divide_loop.induct)
  case (1 i m e d)
  show ?case
  proof (cases "i < 10 \<and> m smod d \<noteq> 0")
    case True
    then have "i + 1 \<le> 10" by simp
    with 1 True obtain k where k: "i + 1 + k \<le> 10"
      "divide_loop (i + 1) (m * 10) (e - 1) d = (m * 10 * 10 ^ k, e - 1 - int k)"
      "\<forall>j<k. \<not> d dvd m * 10 * 10 ^ j"
      "i + 1 + k < 10 \<longrightarrow> d dvd m * 10 * 10 ^ k"
      by blast
    have nd: "\<not> d dvd m" using True by (simp add: smod_eq_0_iff_dvd)
    have "\<forall>j<Suc k. \<not> d dvd m * 10 ^ j"
    proof (intro allI impI)
      fix j assume "j < Suc k"
      show "\<not> d dvd m * 10 ^ j"
      proof (cases j)
        case 0
        then show ?thesis using nd by simp
      next
        case (Suc j')
        then have "j' < k" using \<open>j < Suc k\<close> by simp
        then have "\<not> d dvd m * 10 * 10 ^ j'" using k(3) by blast
        then show ?thesis by (simp add: Suc mult.assoc)
      qed
    qed
    moreover have "divide_loop i m e d = (m * 10 ^ Suc k, e - int (Suc k))"
      using True k(2) by (subst divide_loop.simps) (simp add: mult.assoc)
    moreover have "i + Suc k \<le> 10" using k(1) by simp
    moreover have "i + Suc k < 10 \<longrightarrow> d dvd m * 10 ^ Suc k"
      using k(4) by (simp add: mult.assoc)
    ultimately show ?thesis by blast
  next
    case False
    then have "divide_loop i m e d = (m * 10 ^ 0, e - int 0)"
      by (subst divide_loop.simps) auto
    moreover have "i + 0 < 10 \<longrightarrow> d dvd m * 10 ^ 0"
      using False by (auto simp add: smod_eq_0_iff_dvd)
    moreover have "i + 0 \<le> 10" using 1(2) by simp
    ultimately show ?thesis by blast
  qed
qed

lemma sdiv_exact: "d dvd m \<Longrightarrow> (m sdiv d) * d = (m::int)"
proof -
  assume "d dvd m"
  then have "m smod d = 0" by (simp add: smod_eq_0_iff_dvd)
  then show ?thesis using sdiv_mult_smod_eq [of m d] by simp
qed

lemma smod_abs_less: "d \<noteq> 0 \<Longrightarrow> \<bar>(m::int) smod d\<bar> < \<bar>d\<bar>"
  by (cases "m = 0") (simp_all add: signed_modulo_int_def abs_mult)

lemma smod_sign_nonneg: "0 \<le> m \<Longrightarrow> 0 \<le> (m::int) smod d \<and> m smod d \<le> m"
proof (cases "m = 0")
  case True
  then show ?thesis by simp
next
  case False
  assume "0 \<le> m"
  with False have m: "0 < m" by simp
  then have "m smod d = m mod \<bar>d\<bar>" by (simp add: signed_modulo_int_def)
  moreover have "m mod \<bar>d\<bar> \<le> m" using m by (simp add: zmod_le_nonneg_dividend)
  moreover have "0 \<le> m mod \<bar>d\<bar>"
    by (cases "d = 0") (use m in simp_all)
  ultimately show ?thesis by simp
qed

text \<open>The quotient before normalization, against the exact quotient.\<close>

lemma quotient_val:
  assumes "significant b \<noteq> 0"
  shows "val a / val b
           = of_int (significant a * 10 ^ k) / of_int (significant b)
             * 10 powi (exponent a - int k - exponent b)"
proof -
  have "(10::real) powi exponent a = 10 ^ k * 10 powi (exponent a - int k)"
    using powi_split [of "exponent a - int k" "exponent a"] by simp
  moreover have "(10::real) powi (exponent a - int k - exponent b)
                   = 10 powi (exponent a - int k) / 10 powi exponent b"
    by (simp add: power_int_diff)
  ultimately show ?thesis
    using assms by (simp add: val_def field_simps)
qed

lemma quotient_exact:
  assumes "d \<noteq> 0" "d dvd M"
  shows "(of_int (M sdiv d) :: real) = of_int M / of_int d"
proof -
  have "(of_int (M sdiv d) :: real) * of_int d = of_int M"
    using sdiv_exact [OF assms(2)] by (metis of_int_mult)
  then show ?thesis using assms(1) by (simp add: field_simps)
qed

lemma quotient_error:
  assumes "d \<noteq> 0"
  shows "\<bar>(of_int (M sdiv d) :: real) - of_int M / of_int d\<bar> < 1"
proof -
  have e: "(of_int M :: real) = of_int (M sdiv d) * of_int d + of_int (M smod d)"
    using sdiv_mult_smod_eq [of M d] by (metis of_int_add of_int_mult)
  have "(of_int M :: real) / of_int d
          = (of_int (M sdiv d) * of_int d + of_int (M smod d)) / of_int d"
    by (simp only: e [symmetric])
  also have "\<dots> = of_int (M sdiv d) + of_int (M smod d) / of_int d"
    using assms by (simp add: add_divide_distrib)
  finally have "(of_int (M sdiv d) :: real) - of_int M / of_int d
                  = - (of_int (M smod d) / of_int d)"
    by simp
  moreover have "\<bar>(of_int (M smod d) :: real) / of_int d\<bar> < 1"
  proof -
    have "\<bar>M smod d\<bar> < \<bar>d\<bar>" using assms by (rule smod_abs_less)
    then have "\<bar>(of_int (M smod d) :: real)\<bar> < \<bar>of_int d\<bar>"
      by (metis of_int_abs of_int_less_iff)
    then show ?thesis using assms by (simp add: abs_divide)
  qed
  ultimately show ?thesis by simp
qed

lemma divide_bd_scaled:
  assumes "significant a \<noteq> 0" "significant b \<noteq> 0"
  shows "\<exists>k\<le>10.
           divide_loop 0 (significant a) (exponent a) (significant b)
             = (significant a * 10 ^ k, exponent a - int k)
           \<and> divide_bd a b
               = Inr (normalized \<lparr>significant = (significant a * 10 ^ k) sdiv significant b,
                                   exponent = exponent a - int k - exponent b\<rparr>)
           \<and> (\<forall>j<k. \<not> significant b dvd significant a * 10 ^ j)
           \<and> (k < 10 \<longrightarrow> significant b dvd significant a * 10 ^ k)"
proof -
  obtain k where k: "0 + k \<le> 10"
    "divide_loop 0 (significant a) (exponent a) (significant b)
       = (significant a * 10 ^ k, exponent a - int k)"
    "\<forall>j<k. \<not> significant b dvd significant a * 10 ^ j"
    "0 + k < 10 \<longrightarrow> significant b dvd significant a * 10 ^ k"
    using divide_loop_spec [of 0 "significant a" "exponent a" "significant b"] by auto
  have "divide_bd a b
          = Inr (normalized \<lparr>significant = (significant a * 10 ^ k) sdiv significant b,
                              exponent = exponent a - int k - exponent b\<rparr>)"
    using assms by (simp add: divide_bd_def k(2))
  with k show ?thesis by auto
qed

text \<open>
  C8. For a nonzero dividend \<open>a\<close> and a nonzero divisor \<open>b\<close>, \<open>divide\<close> multiplies the
  dividend's significant by 10, decrementing the working exponent each time, \<open>k\<close> times
  with \<open>k \<le> 10\<close>: no earlier scaled significant is divisible by the divisor's, and the
  loop stops before the tenth step only at a divisible one. The result is the
  normalized truncating quotient of the significants; it is exactly \<open>a / b\<close> when the
  scaled significant divides evenly, and always within one unit of the last digit
  position \<open>exponent a - k - exponent b\<close> of it. The budget 10 is a literal of the loop.
\<close>

theorem divide_scaling_budget:
  "significant a \<noteq> 0 \<Longrightarrow> significant b \<noteq> 0 \<Longrightarrow>
     \<exists>k q. k \<le> 10
       \<and> divide_loop 0 (significant a) (exponent a) (significant b)
           = (significant a * 10 ^ k, exponent a - int k)
       \<and> (\<forall>j<k. \<not> significant b dvd significant a * 10 ^ j)
       \<and> (k < 10 \<longrightarrow> significant b dvd significant a * 10 ^ k)
       \<and> divide_bd a b = Inr q
       \<and> q = normalized \<lparr>significant = (significant a * 10 ^ k) sdiv significant b,
                          exponent = exponent a - int k - exponent b\<rparr>
       \<and> (significant b dvd significant a * 10 ^ k \<longrightarrow> val q = val a / val b)
       \<and> \<bar>val q - val a / val b\<bar> < 10 powi (exponent a - int k - exponent b)"
proof -
  assume a: "significant a \<noteq> 0" and b: "significant b \<noteq> 0"
  from divide_bd_scaled [OF a b] obtain k where k: "k \<le> 10"
    "divide_loop 0 (significant a) (exponent a) (significant b)
       = (significant a * 10 ^ k, exponent a - int k)"
    "divide_bd a b
       = Inr (normalized \<lparr>significant = (significant a * 10 ^ k) sdiv significant b,
                           exponent = exponent a - int k - exponent b\<rparr>)"
    "\<forall>j<k. \<not> significant b dvd significant a * 10 ^ j"
    "k < 10 \<longrightarrow> significant b dvd significant a * 10 ^ k"
    by blast
  let ?M = "significant a * 10 ^ k"
  let ?E = "exponent a - int k - exponent b"
  let ?q = "normalized \<lparr>significant = ?M sdiv significant b, exponent = ?E\<rparr>"
  have vq: "val ?q = of_int (?M sdiv significant b) * 10 powi ?E"
    by (simp add: val_mk)
  have vab: "val a / val b = of_int ?M / of_int (significant b) * 10 powi ?E"
    using b by (rule quotient_val)
  have exact: "significant b dvd ?M \<longrightarrow> val ?q = val a / val b"
    using b by (simp only: vq vab) (simp add: quotient_exact)
  have "val ?q - val a / val b
          = (of_int (?M sdiv significant b) - of_int ?M / of_int (significant b)) * 10 powi ?E"
    by (simp only: vq vab left_diff_distrib)
  then have "\<bar>val ?q - val a / val b\<bar>
          = \<bar>of_int (?M sdiv significant b) - of_int ?M / of_int (significant b)\<bar> * 10 powi ?E"
    by (simp add: abs_mult)
  also have "\<dots> < 1 * 10 powi ?E"
    using quotient_error [OF b, of ?M] by (intro mult_strict_right_mono) simp_all
  finally have err: "\<bar>val ?q - val a / val b\<bar> < 10 powi ?E" by simp
  show ?thesis
    using k exact err by blast
qed


theorem divide_scaling_budget_witness:
  "significant \<lparr>significant = 1, exponent = 0\<rparr> \<noteq> 0
   \<and> significant \<lparr>significant = 8, exponent = 0\<rparr> \<noteq> 0
   \<and> (\<exists>k q. k \<le> 10 \<and> k < 10 \<and> 8 dvd (1::int) * 10 ^ k
          \<and> divide_bd \<lparr>significant = 1, exponent = 0\<rparr> \<lparr>significant = 8, exponent = 0\<rparr> = Inr q
          \<and> val q = val \<lparr>significant = 1, exponent = 0\<rparr> / val \<lparr>significant = 8, exponent = 0\<rparr>)
   \<and> divide_bd \<lparr>significant = 1, exponent = 0\<rparr> \<lparr>significant = 8, exponent = 0\<rparr>
       = Inr \<lparr>significant = 125, exponent = - 3\<rparr>
   \<and> divide_bd \<lparr>significant = 1, exponent = 0\<rparr> \<lparr>significant = 3, exponent = 0\<rparr>
       = Inr \<lparr>significant = 3333333333, exponent = - 10\<rparr>"
proof -
  let ?a = "\<lparr>significant = 1, exponent = 0\<rparr>"
  let ?b = "\<lparr>significant = 8, exponent = 0\<rparr>"
  have a: "significant ?a \<noteq> 0" and b: "significant ?b \<noteq> 0" by simp_all
  from divide_scaling_budget [OF a b] obtain k q where
    k: "k \<le> 10"
    and first: "\<forall>j<k. \<not> significant ?b dvd significant ?a * 10 ^ j"
    and stop: "k < 10 \<longrightarrow> significant ?b dvd significant ?a * 10 ^ k"
    and q: "divide_bd ?a ?b = Inr q"
    and exact: "significant ?b dvd significant ?a * 10 ^ k \<longrightarrow> val q = val ?a / val ?b"
    by blast
  have "significant ?b dvd significant ?a * 10 ^ 3" by simp
  with first have "\<not> 3 < k" by blast
  then have lt: "k < 10" by simp
  with stop have d: "significant ?b dvd significant ?a * 10 ^ k" by blast
  with exact have v: "val q = val ?a / val ?b" by blast
  have "8 dvd (1::int) * 10 ^ k" using d by simp
  with k lt q v have ex: "\<exists>k q. k \<le> 10 \<and> k < 10 \<and> 8 dvd (1::int) * 10 ^ k
          \<and> divide_bd ?a ?b = Inr q \<and> val q = val ?a / val ?b"
    by blast
  have e1: "divide_bd ?a ?b = Inr \<lparr>significant = 125, exponent = - 3\<rparr>"
    by code_simp
  have e2: "divide_bd ?a \<lparr>significant = 3, exponent = 0\<rparr>
              = Inr \<lparr>significant = 3333333333, exponent = - 10\<rparr>"
    by code_simp
  show ?thesis using a b ex e1 e2 by blast
qed

section \<open>Remainder\<close>

lemma round_bd_negate_Down:
  "round_bd (negate x) Down p False = negate (round_bd x Down p False)"
  by (simp add: round_bd_unfold Let_def normalized_negate negate_ZERO roundDown_negate)

lemma round_Down_nonneg:
  assumes "0 \<le> significant q"
  shows "round_bd q Down 0 False = normalized (integralPart q)"
proof -
  let ?n = "normalized q"
  have m: "0 \<le> significant ?n"
    using assms val_nonneg [of ?n] val_nonneg [of q] by simp
  show ?thesis
  proof (cases "significant q = 0")
    case True
    then have "?n = \<lparr>significant = 0, exponent = 0\<rparr>" by (simp add: normalized_def)
    then show ?thesis
      using True by (simp add: round_bd_unfold integralPart.simps [of q] Let_def ZERO_def)
         (simp add: normalized_def)
  next
    case False
    then have nz: "significant ?n \<noteq> 0" by simp
    show ?thesis
    proof (cases "0 \<le> exponent ?n")
      case True
      then show ?thesis
        using assms nz by (simp add: round_bd_unfold integralPart.simps [of q] Let_def)
    next
      case False
      have "roundDown ?n 0 = \<lparr>significant = significant ?n sdiv 10 ^ nat (- exponent ?n), exponent = 0\<rparr>"
        using m by (simp add: roundDown.simps [of ?n 0] signum_def Let_def)
      then show ?thesis
        using assms nz False by (simp add: round_bd_unfold integralPart.simps [of q] Let_def)
    qed
  qed
qed

lemma round_Down_integralPart:
  "round_bd q Down 0 False = normalized (integralPart q)"
proof (cases "0 \<le> significant q")
  case True
  then show ?thesis by (rule round_Down_nonneg)
next
  case False
  then have neg: "0 \<le> significant (negate q)" by simp
  have "round_bd q Down 0 False = negate (round_bd (negate q) Down 0 False)"
    using round_bd_negate_Down [of "negate q" 0] by simp
  also have "\<dots> = negate (normalized (integralPart (negate q)))"
    by (simp only: round_Down_nonneg [OF neg])
  also have "\<dots> = normalized (integralPart q)"
    using False by (simp add: integralPart.simps [of q] normalized_negate)
  finally show ?thesis .
qed

lemma val_round_Down:
  "val (round_bd q Down 0 False) = of_int (truncate_toward_zero (val q))"
  by (simp add: round_Down_integralPart integralPart_val)

lemma trunc_nonneg: "0 \<le> v \<Longrightarrow> 0 \<le> truncate_toward_zero v \<and> of_int (truncate_toward_zero v) \<le> v"
  by (simp add: truncate_toward_zero_def)

lemma trunc_nonpos: "v \<le> 0 \<Longrightarrow> truncate_toward_zero v \<le> 0 \<and> v \<le> of_int (truncate_toward_zero v)"
proof -
  assume v: "v \<le> 0"
  have "of_int \<lfloor>- v\<rfloor> \<le> - v" by (rule of_int_floor_le)
  then have "v \<le> - of_int \<lfloor>- v\<rfloor>" by linarith
  moreover have "0 \<le> \<lfloor>- v\<rfloor>" using v by simp
  ultimately show ?thesis using v by (auto simp add: truncate_toward_zero_def)
qed

lemma trunc_between_nonneg:
  assumes "0 \<le> v * w"
  shows "0 \<le> of_int (truncate_toward_zero v) * w \<and> of_int (truncate_toward_zero v) * w \<le> v * w"
proof -
  let ?t = "of_int (truncate_toward_zero v) :: real"
  consider "0 \<le> v" "0 \<le> w" | "v \<le> 0" "w \<le> 0"
    using assms by (auto simp add: zero_le_mult_iff)
  then show ?thesis
  proof cases
    case 1
    then have "0 \<le> ?t" "?t \<le> v" using trunc_nonneg [of v] by simp_all
    with 1 show ?thesis by (simp add: mult_right_mono)
  next
    case 2
    then have "?t \<le> 0" "v \<le> ?t" using trunc_nonpos [of v] by simp_all
    with 2 show ?thesis by (simp add: mult_right_mono_neg mult_nonpos_nonpos)
  qed
qed

lemma trunc_between_nonpos:
  assumes "v * w \<le> 0"
  shows "v * w \<le> of_int (truncate_toward_zero v) * w \<and> of_int (truncate_toward_zero v) * w \<le> 0"
proof -
  let ?t = "of_int (truncate_toward_zero v) :: real"
  consider "0 \<le> v" "w \<le> 0" | "v \<le> 0" "0 \<le> w"
    using assms by (auto simp add: mult_le_0_iff)
  then show ?thesis
  proof cases
    case 1
    then have "0 \<le> ?t" "?t \<le> v" using trunc_nonneg [of v] by simp_all
    with 1 show ?thesis by (simp add: mult_right_mono_neg mult_nonneg_nonpos)
  next
    case 2
    then have "?t \<le> 0" "v \<le> ?t" using trunc_nonpos [of v] by simp_all
    with 2 show ?thesis by (simp add: mult_right_mono mult_nonpos_nonneg)
  qed
qed

lemma smod_sign_nonpos: "m \<le> 0 \<Longrightarrow> (m::int) \<le> m smod d \<and> m smod d \<le> 0"
  using smod_sign_nonneg [of "- m" d] by (simp add: smod_minus_left)

lemma divide_product:
  assumes a: "significant a \<noteq> 0" and b: "significant b \<noteq> 0"
    and q: "divide_bd a b = Inr q"
  shows "\<exists>M P. 0 < P \<and> val a = of_int M * P
           \<and> val q * val b = of_int (M - M smod significant b) * P
           \<and> (0 < significant a \<longrightarrow> 0 < M) \<and> (significant a < 0 \<longrightarrow> M < 0)"
proof -
  from divide_bd_scaled [OF a b] q obtain k where
    k: "q = normalized \<lparr>significant = (significant a * 10 ^ k) sdiv significant b,
                          exponent = exponent a - int k - exponent b\<rparr>"
    by auto
  let ?M = "significant a * 10 ^ k"
  let ?d = "significant b"
  let ?P = "(10::real) powi (exponent a - int k)"
  have "(10::real) powi exponent a = 10 ^ k * ?P"
    using powi_split [of "exponent a - int k" "exponent a"] by simp
  then have va: "val a = of_int ?M * ?P"
    by (simp add: val_def)
  have Peq: "10 powi (exponent a - int k - exponent b) * 10 powi exponent b = ?P"
    by (simp add: power_int_add [symmetric])
  have vq0: "val q = of_int (?M sdiv ?d) * 10 powi (exponent a - int k - exponent b)"
    by (simp add: k val_mk)
  have vb: "val b = of_int ?d * 10 powi exponent b"
    by (simp add: val_def)
  have "val q * val b
          = (of_int (?M sdiv ?d) * of_int ?d)
            * (10 powi (exponent a - int k - exponent b) * 10 powi exponent b)"
    by (simp only: vq0 vb mult_ac)
  then have "val q * val b = of_int ((?M sdiv ?d) * ?d) * ?P"
    by (simp only: Peq of_int_mult)
  moreover have "(?M sdiv ?d) * ?d = ?M - ?M smod ?d"
    by (simp only: minus_smod_eq_sdiv_mult)
  ultimately have vq: "val q * val b = of_int (?M - ?M smod ?d) * ?P"
    by simp
  have "0 < significant a \<longrightarrow> 0 < ?M" by simp
  moreover have "significant a < 0 \<longrightarrow> ?M < 0" by (simp add: mult_less_0_iff)
  moreover have "0 < ?P" by simp
  ultimately show ?thesis using va vq by blast
qed

lemma divide_product_bounds:
  assumes a: "significant a \<noteq> 0" and b: "significant b \<noteq> 0"
    and q: "divide_bd a b = Inr q"
  shows "(0 < significant a \<longrightarrow> 0 \<le> val q * val b \<and> val q * val b \<le> val a)
       \<and> (significant a < 0 \<longrightarrow> val a \<le> val q * val b \<and> val q * val b \<le> 0)"
proof -
  from divide_product [OF a b q] obtain M P where
    P: "0 < P" and va: "val a = of_int M * P"
    and vq: "val q * val b = of_int (M - M smod significant b) * P"
    and pos: "0 < significant a \<longrightarrow> 0 < M" and neg: "significant a < 0 \<longrightarrow> M < 0"
    by blast
  show ?thesis
  proof (intro conjI impI)
    assume "0 < significant a"
    then have "0 \<le> M" using pos by simp
    then have "0 \<le> M - M smod significant b" "M - M smod significant b \<le> M"
      using smod_sign_nonneg [of M "significant b"] by simp_all
    then have "(0::real) \<le> of_int (M - M smod significant b)"
      and "(of_int (M - M smod significant b) :: real) \<le> of_int M"
      by (simp_all only: of_int_0_le_iff of_int_le_iff)
    then show "0 \<le> val q * val b" and "val q * val b \<le> val a"
      using P by (simp_all only: va vq mult_right_mono zero_le_mult_iff less_imp_le) simp_all
  next
    assume "significant a < 0"
    then have "M \<le> 0" using neg by simp
    then have "M - M smod significant b \<le> 0" "M \<le> M - M smod significant b"
      using smod_sign_nonpos [of M "significant b"] by simp_all
    then have "(of_int (M - M smod significant b) :: real) \<le> 0"
      and "(of_int M :: real) \<le> of_int (M - M smod significant b)"
      by (simp_all only: of_int_le_0_iff of_int_le_iff)
    then show "val a \<le> val q * val b" and "val q * val b \<le> 0"
      using P by (simp_all only: va vq mult_right_mono mult_le_0_iff less_imp_le) simp_all
  qed
qed

lemma remainder_sign:
  assumes b: "significant b \<noteq> 0"
  shows "\<exists>q r. divideToIntegralValue a b = Inr q
           \<and> remainder a b = Inr r
           \<and> r = subtract a (multiply q b)
           \<and> val r = val a - val q * val b
           \<and> (0 < significant a \<longrightarrow> 0 \<le> significant r)
           \<and> (significant a < 0 \<longrightarrow> significant r \<le> 0)
           \<and> (significant a = 0 \<longrightarrow> significant r = 0)"
proof -
  obtain d where d: "divide_bd a b = Inr d"
    using b by (cases "divide_bd a b") (auto simp add: divide_bd_def split: if_splits prod.splits)
  let ?q = "round_bd d Down 0 False"
  let ?r = "subtract a (multiply ?q b)"
  have q: "divideToIntegralValue a b = Inr ?q"
    by (simp add: divideToIntegralValue_def d)
  have r: "remainder a b = Inr ?r"
    by (simp add: remainder_def q)
  have vr: "val ?r = val a - val ?q * val b" by simp
  have vq: "val ?q = of_int (truncate_toward_zero (val d))" by (rule val_round_Down)
  have pos: "0 \<le> significant ?r" if "0 < significant a"
  proof -
    from that have "significant a \<noteq> 0" by simp
    from divide_product_bounds [OF this b d] that
    have 1: "0 \<le> val d * val b" and 2: "val d * val b \<le> val a" by simp_all
    have "val ?q * val b \<le> val d * val b"
      using trunc_between_nonneg [OF 1] by (simp only: vq)
    then have "0 \<le> val ?r" using 2 vr by linarith
    then show ?thesis by (metis val_nonneg)
  qed
  have neg: "significant ?r \<le> 0" if "significant a < 0"
  proof -
    from that have "significant a \<noteq> 0" by simp
    from divide_product_bounds [OF this b d] that
    have 1: "val d * val b \<le> 0" and 2: "val a \<le> val d * val b" by simp_all
    have "val d * val b \<le> val ?q * val b"
      using trunc_between_nonpos [OF 1] by (simp only: vq)
    then have "val ?r \<le> 0" using 2 vr by linarith
    then show ?thesis by (metis val_sign not_le)
  qed
  have zero: "significant ?r = 0" if "significant a = 0"
  proof -
    from that b have "d = \<lparr>significant = 0, exponent = 0\<rparr>"
      using d by (simp add: divide_bd_def)
    then have "val d = 0" by (simp add: val_def)
    then have "val ?q = 0" by (simp only: vq) (simp add: truncate_toward_zero_def)
    moreover have "val a = 0" using that by (simp add: val_def)
    ultimately have "val ?r = 0" by simp
    then show ?thesis by (metis val_zero)
  qed
  show ?thesis using q r vr pos neg zero by blast
qed


text \<open>
  C9. For every \<open>a\<close> and every nonzero \<open>b\<close>, \<open>remainder a b\<close> is
  \<open>a - divideToIntegralValue a b * b\<close>, computed exactly, and its sign follows the sign of
  \<open>a\<close>: it is never negative for a positive \<open>a\<close>, never positive for a negative \<open>a\<close>, and
  zero for a zero \<open>a\<close>. The result may be negative: the remainder of \<open>-7\<close> by \<open>2\<close> is \<open>-1\<close>.
\<close>

theorem remainder_identity_sign:
  "significant b \<noteq> 0 \<Longrightarrow>
     (\<exists>q r. divideToIntegralValue a b = Inr q
        \<and> remainder a b = Inr r
        \<and> r = subtract a (multiply q b)
        \<and> val r = val a - val q * val b
        \<and> (0 < significant a \<longrightarrow> 0 \<le> significant r)
        \<and> (significant a < 0 \<longrightarrow> significant r \<le> 0)
        \<and> (significant a = 0 \<longrightarrow> significant r = 0))
     \<and> remainder \<lparr>significant = - 7, exponent = 0\<rparr> \<lparr>significant = 2, exponent = 0\<rparr>
         = Inr \<lparr>significant = - 1, exponent = 0\<rparr>"
proof (intro conjI)
  assume "significant b \<noteq> 0"
  then show "\<exists>q r. divideToIntegralValue a b = Inr q
        \<and> remainder a b = Inr r
        \<and> r = subtract a (multiply q b)
        \<and> val r = val a - val q * val b
        \<and> (0 < significant a \<longrightarrow> 0 \<le> significant r)
        \<and> (significant a < 0 \<longrightarrow> significant r \<le> 0)
        \<and> (significant a = 0 \<longrightarrow> significant r = 0)"
    by (rule remainder_sign)
next
  show "remainder \<lparr>significant = - 7, exponent = 0\<rparr> \<lparr>significant = 2, exponent = 0\<rparr>
         = Inr \<lparr>significant = - 1, exponent = 0\<rparr>"
    by code_simp
qed

theorem remainder_identity_sign_witness:
  "significant \<lparr>significant = 2, exponent = 0\<rparr> \<noteq> 0
   \<and> (\<exists>r. remainder \<lparr>significant = - 7, exponent = 0\<rparr> \<lparr>significant = 2, exponent = 0\<rparr> = Inr r
          \<and> significant \<lparr>significant = - 7, exponent = 0\<rparr> < 0 \<and> significant r \<le> 0)
   \<and> (\<exists>r. remainder \<lparr>significant = 7, exponent = 0\<rparr> \<lparr>significant = 2, exponent = 0\<rparr> = Inr r
          \<and> 0 < significant \<lparr>significant = 7, exponent = 0\<rparr> \<and> 0 \<le> significant r)
   \<and> (\<exists>r. remainder \<lparr>significant = 0, exponent = 0\<rparr> \<lparr>significant = 2, exponent = 0\<rparr> = Inr r
          \<and> significant \<lparr>significant = 0, exponent = 0\<rparr> = 0 \<and> significant r = 0)"
proof -
  let ?b = "\<lparr>significant = 2, exponent = 0\<rparr>"
  have b: "significant ?b \<noteq> 0" by simp
  have n: "significant \<lparr>significant = - 7, exponent = 0\<rparr> < 0"
    and p: "0 < significant \<lparr>significant = 7, exponent = 0\<rparr>"
    and z: "significant \<lparr>significant = 0, exponent = 0\<rparr> = 0"
    by simp_all
  show ?thesis
    using remainder_identity_sign [OF b, of "\<lparr>significant = - 7, exponent = 0\<rparr>"]
      remainder_identity_sign [OF b, of "\<lparr>significant = 7, exponent = 0\<rparr>"]
      remainder_identity_sign [OF b, of "\<lparr>significant = 0, exponent = 0\<rparr>"]
      b n p z
    by blast
qed

section \<open>Square root of zero\<close>

lemma normalized_zero: "significant x = 0 \<Longrightarrow> normalized x = ZERO"
  by (simp add: normalized_def ZERO_def)

lemma add_zero_significant:
  "significant a = 0 \<Longrightarrow> significant b = 0 \<Longrightarrow> add a b = ZERO"
  by (simp add: add_closed normalized_zero)

lemma multiply_zero_significant:
  "significant a = 0 \<Longrightarrow> multiply a b = ZERO"
  by (simp add: multiply_def normalized_zero)

lemma newton_step_zero:
  assumes "significant this = 0" "significant guess = 0"
  shows "newton_step this guess = Inl DivisionUndefined"
proof -
  have "significant (subtract (multiply guess guess) this) = 0"
    using assms by (simp add: subtract_def multiply_zero_significant add_zero_significant ZERO_def)
  moreover have "significant (add guess guess) = 0"
    using assms by (simp add: add_zero_significant ZERO_def)
  ultimately have "divide_bd (subtract (multiply guess guess) this) (add guess guess)
                     = Inl DivisionUndefined"
    by (simp add: divide_bd_def)
  then show ?thesis by (simp add: newton_step_def)
qed

lemma sqrt_loop_zero:
  "significant this = 0 \<Longrightarrow> significant guess = 0 \<Longrightarrow>
     sqrt_loop 0 this guess = Inl DivisionUndefined"
  by (subst sqrt_loop.simps) (simp add: newton_step_zero)

lemma overflow_bound_pos: "0 < overflow_bound"
  by (simp add: overflow_bound_def)

lemma ten_308_below: "(10::real) ^ 308 < overflow_bound"
  by (simp add: overflow_bound_def)

lemma ten_309_above: "overflow_bound \<le> (10::real) ^ 309"
  by (simp add: overflow_bound_def)

lemma ten_to_the_finite:
  assumes "e \<le> 308"
  shows "ten_to_the rd e = Finite (rd (10 powi e))"
proof -
  have "(10::real) powi e \<le> 10 powi 308"
    using assms by (intro power_int_increasing) simp_all
  then have "(10::real) powi e < overflow_bound"
    using ten_308_below by simp
  moreover have "\<not> (10::real) powi e \<le> - overflow_bound"
    using overflow_bound_pos powi_pos [of e] by linarith
  ultimately show ?thesis
    by (simp add: ten_to_the_def to_double_def)
qed

lemma ten_to_the_overflow:
  assumes "308 < e"
  shows "ten_to_the rd e = PosInfinity"
proof -
  have "(10::real) powi 309 \<le> 10 powi e"
    using assms by (intro power_int_increasing) simp_all
  then have "overflow_bound \<le> (10::real) powi e"
    using ten_309_above by simp
  then show ?thesis
    by (simp add: ten_to_the_def to_double_def)
qed

lemma number_zero_finite:
  "significant x = 0 \<Longrightarrow> exponent x \<le> 308 \<Longrightarrow> number rd x = Finite 0"
  by (simp add: number_def Number_of_bigint_def ten_to_the_finite) (simp add: to_double_def)

lemma number_zero_overflow:
  "significant x = 0 \<Longrightarrow> 308 < exponent x \<Longrightarrow> number rd x = NaN"
  by (simp add: number_def Number_of_bigint_def ten_to_the_overflow) (simp add: to_double_def)

lemma valueOfNumber_zero: "valueOfNumber rd (Finite 0) = Some (Inr ZERO)"
proof -
  have "valueOfNumber_loop rd (Finite 0) 0 = Some (Finite 0, 0)"
    by (subst valueOfNumber_loop.simps) simp
  then show ?thesis
    by (simp add: valueOfNumber_def normalized_zero)
qed

lemma seed_zero_finite:
  "significant x = 0 \<Longrightarrow> exponent x \<le> 308 \<Longrightarrow>
     valueOfNumber rd (Math_sqrt rd (number rd x)) = Some (Inr ZERO)"
  by (simp add: number_zero_finite to_double_def valueOfNumber_zero)

lemma seed_zero_overflow:
  "significant x = 0 \<Longrightarrow> 308 < exponent x \<Longrightarrow>
     valueOfNumber rd (Math_sqrt rd (number rd x)) = Some (Inl NotFinite)"
  by (simp add: number_zero_overflow valueOfNumber_def)

lemma sqrt_zero_finite:
  "significant x = 0 \<Longrightarrow> exponent x \<le> 308 \<Longrightarrow>
     sqrt_bd rd x = Some (Inl DivisionUndefined)"
  by (simp add: sqrt_bd_def seed_zero_finite sqrt_loop_zero ZERO_def)

lemma sqrt_zero_overflow:
  "significant x = 0 \<Longrightarrow> 308 < exponent x \<Longrightarrow> sqrt_bd rd x = Some (Inl NotFinite)"
  by (simp add: sqrt_bd_def seed_zero_overflow)

lemma sqrt_four:
  "sqrt_bd id \<lparr>significant = 4, exponent = 0\<rparr> = Some (Inr \<lparr>significant = 2, exponent = 0\<rparr>)"
proof -
  have b: "\<not> overflow_bound \<le> 4" "\<not> overflow_bound \<le> 2"
    by (simp_all add: overflow_bound_def)
  have n: "number id \<lparr>significant = 4, exponent = 0\<rparr> = Finite 4"
    using b overflow_bound_pos
    by (simp add: number_def Number_of_bigint_def ten_to_the_def to_double_def)
  have s: "to_double id 2 = Finite 2"
    using b overflow_bound_pos by (simp add: to_double_def)
  have "valueOfNumber_loop id (Finite 2) 0 = Some (Finite 2, 0)"
    by (subst valueOfNumber_loop.simps) simp
  moreover have "normalized \<lparr>significant = 2, exponent = 0\<rparr> = \<lparr>significant = 2, exponent = 0\<rparr>"
    by code_simp
  ultimately have v: "valueOfNumber id (Finite 2) = Some (Inr \<lparr>significant = 2, exponent = 0\<rparr>)"
    by (simp add: valueOfNumber_def)
  have l: "sqrt_loop 0 \<lparr>significant = 4, exponent = 0\<rparr> \<lparr>significant = 2, exponent = 0\<rparr>
             = Inr \<lparr>significant = 2, exponent = 0\<rparr>"
    by code_simp
  have m: "normalized \<lparr>significant = 2, exponent = 0\<rparr> = \<lparr>significant = 2, exponent = 0\<rparr>"
    by code_simp
  show ?thesis
    by (simp add: sqrt_bd_def n s v l m)
qed

text \<open>
  C10, as stated, at a zero with a large exponent: \<^verbatim>\<open>new BigDecimal(0n, 400).sqrt()\<close>.
  \<^verbatim>\<open>this.number()\<close> is \<^verbatim>\<open>0 * 10 ** 400 = 0 * Infinity = NaN\<close>, and \<^verbatim>\<open>valueOf\<close> throws
  \<^verbatim>\<open>"NaN and Infinite are not supported"\<close> before any division. No result is rounded on
  this path; the rounding is instantiated with the identity.
\<close>

theorem sqrt_zero_large_exponent_counterexample:
  "significant \<lparr>significant = 0, exponent = 400\<rparr> = 0
   \<and> sqrt_bd id \<lparr>significant = 0, exponent = 400\<rparr> = Some (Inl NotFinite)
   \<and> sqrt_bd id \<lparr>significant = 0, exponent = 400\<rparr> \<noteq> Some (Inl DivisionUndefined)"
  by (simp add: sqrt_zero_overflow)

text \<open>
  C10, amended. \<open>sqrt\<close> of a numerically zero value never returns zero. When the
  exponent of the operand is at most 308 (\<open>ZERO\<close> and every normalized zero have
  exponent 0), the seed is \<open>ZERO\<close> and the first Newton step divides \<open>0 * 0 - 0\<close> by
  \<open>0 + 0\<close>, which fails with \<open>DivisionUndefined\<close>; when the exponent is above 308,
  \<^verbatim>\<open>this.number()\<close> is \<^verbatim>\<open>NaN\<close> and \<open>sqrt\<close> fails with \<open>NotFinite\<close>. Whenever \<open>sqrt\<close> returns
  a result, the operand is strictly positive. This holds for every rounding \<open>rd\<close>.
\<close>

theorem sqrt_zero_fails:
  "(significant x = 0 \<and> exponent x \<le> 308 \<longrightarrow> sqrt_bd rd x = Some (Inl DivisionUndefined))
   \<and> (significant x = 0 \<and> 308 < exponent x \<longrightarrow> sqrt_bd rd x = Some (Inl NotFinite))
   \<and> sqrt_bd rd ZERO = Some (Inl DivisionUndefined)
   \<and> (\<forall>r. sqrt_bd rd x = Some (Inr r) \<longrightarrow> 0 < significant x)"
proof (intro conjI impI allI)
  assume "significant x = 0 \<and> exponent x \<le> 308"
  then show "sqrt_bd rd x = Some (Inl DivisionUndefined)"
    by (simp add: sqrt_zero_finite)
next
  assume "significant x = 0 \<and> 308 < exponent x"
  then show "sqrt_bd rd x = Some (Inl NotFinite)"
    by (simp add: sqrt_zero_overflow)
next
  show "sqrt_bd rd ZERO = Some (Inl DivisionUndefined)"
    by (rule sqrt_zero_finite) (simp_all add: ZERO_def)
next
  fix r
  assume h: "sqrt_bd rd x = Some (Inr r)"
  show "0 < significant x"
  proof (rule ccontr)
    assume "\<not> 0 < significant x"
    then consider "significant x < 0" | "significant x = 0" "exponent x \<le> 308"
      | "significant x = 0" "308 < exponent x"
      by linarith
    then show False
    proof cases
      case 1
      then show False using h by (simp add: sqrt_bd_def)
    next
      case 2
      then show False using h by (simp add: sqrt_zero_finite)
    next
      case 3
      then show False using h by (simp add: sqrt_zero_overflow)
    qed
  qed
qed

theorem sqrt_zero_fails_witness:
  "(significant \<lparr>significant = 0, exponent = 3\<rparr> = 0
    \<and> exponent \<lparr>significant = 0, exponent = 3\<rparr> \<le> 308
    \<and> sqrt_bd id \<lparr>significant = 0, exponent = 3\<rparr> = Some (Inl DivisionUndefined))
   \<and> (significant \<lparr>significant = 0, exponent = 309\<rparr> = 0
    \<and> 308 < exponent \<lparr>significant = 0, exponent = 309\<rparr>
    \<and> sqrt_bd id \<lparr>significant = 0, exponent = 309\<rparr> = Some (Inl NotFinite))
   \<and> (sqrt_bd id \<lparr>significant = 4, exponent = 0\<rparr> = Some (Inr \<lparr>significant = 2, exponent = 0\<rparr>)
    \<and> 0 < significant \<lparr>significant = 4, exponent = 0\<rparr>)"
proof -
  have a: "significant \<lparr>significant = 0, exponent = 3\<rparr> = 0
           \<and> exponent \<lparr>significant = 0, exponent = 3\<rparr> \<le> 308"
    and b: "significant \<lparr>significant = 0, exponent = 309\<rparr> = 0
           \<and> 308 < exponent \<lparr>significant = 0, exponent = 309\<rparr>"
    by simp_all
  show ?thesis
    using sqrt_zero_fails [of "\<lparr>significant = 0, exponent = 3\<rparr>" id]
      sqrt_zero_fails [of "\<lparr>significant = 0, exponent = 309\<rparr>" id]
      sqrt_zero_fails [of "\<lparr>significant = 4, exponent = 0\<rparr>" id] sqrt_four a b
    by blast
qed

end
